theory Spec2Isabelle
  imports Complex_Main
begin

section \<open>Numbers\<close>

text \<open>
  The program computes with JavaScript numbers, which are binary64 floating-point numbers.
  Two levels of model are used. The tax estimate, the rebalancer and the mortgage
  simulation are first modelled over the reals that the numbers approximate: every
  operation is the exact operation, and the theorems about them speak of the algorithm.
  Where the rounding itself decides what the program returns (the guard of the mortgage
  simulation, the integers recorded in the growth chart), the model is in binary64: every
  operation is followed by the rounding to the nearest binary64 number that the program
  performs.
\<close>

definition js_round :: "real \<Rightarrow> real" where
  \<comment> \<open>\<^verbatim>\<open>Math.round\<close>: the nearest integer, a tie going up.\<close>
  "js_round x = of_int \<lfloor>x + 1 / 2\<rfloor>"

definition toFixed1 :: "real \<Rightarrow> real" where
  \<comment> \<open>The number written by \<^verbatim>\<open>x.toFixed(1)\<close> for \<open>x \<ge> 0\<close>: one decimal, a tie going up.\<close>
  "toFixed1 x = of_int \<lfloor>x * 10 + 1 / 2\<rfloor> / 10"

section \<open>Binary64 numbers\<close>

text \<open>
  A finite binary64 number is kept as the real it denotes; the two zeros are not told
  apart (no division by a zero occurs in the program). \<open>exponent64 x\<close> is the binary
  exponent of \<open>x\<close>, found by halving or doubling, and not below -1022, where the spacing of
  the numbers stops shrinking. \<open>nearest64\<close> rounds to the nearest number with 53 significant
  bits, a tie going to the even one; a result of magnitude \<open>2 ^ 1024\<close> or more is an
  infinity. The operations are those of the program: \<^verbatim>\<open>+ - * /\<close>, the comparisons (false
  on \<^verbatim>\<open>NaN\<close>), \<^verbatim>\<open>Math.min\<close>, \<^verbatim>\<open>Math.max\<close> and \<^verbatim>\<open>Math.round\<close>.
\<close>

fun halvings :: "nat \<Rightarrow> real \<Rightarrow> int" where
  "halvings 0 x = 0"
| "halvings (Suc n) x = (if x < 2 then 0 else 1 + halvings n (x / 2))"

fun doublings :: "nat \<Rightarrow> real \<Rightarrow> int" where
  "doublings 0 x = 0"
| "doublings (Suc n) x = (if 1 \<le> x then 0 else doublings n (2 * x) - 1)"

definition exponent64 :: "real \<Rightarrow> int" where
  "exponent64 x = (if 1 \<le> \<bar>x\<bar> then halvings 1024 \<bar>x\<bar> else doublings 1022 \<bar>x\<bar>)"

definition pow2 :: "int \<Rightarrow> real" where
  "pow2 e = (if 0 \<le> e then 2 ^ nat e else 1 / 2 ^ nat (- e))"

definition round_half_even :: "real \<Rightarrow> int" where
  "round_half_even y =
     (let f = \<lfloor>y\<rfloor>; d = y - of_int f
      in if d < 1 / 2 then f else if 1 / 2 < d then f + 1 else if even f then f else f + 1)"

definition nearest64 :: "real \<Rightarrow> real" where
  "nearest64 x =
     (let u = pow2 (exponent64 x - 52) in of_int (round_half_even (x / u)) * u)"

datatype double = Finite real | PInf | NInf | NaN

definition to_double :: "real \<Rightarrow> double" where
  "to_double x =
     (let y = nearest64 x
      in if pow2 1024 \<le> y then PInf else if y \<le> - pow2 1024 then NInf else Finite y)"

fun jneg :: "double \<Rightarrow> double" where
  "jneg (Finite x) = Finite (- x)"
| "jneg PInf = NInf"
| "jneg NInf = PInf"
| "jneg NaN = NaN"

fun jadd :: "double \<Rightarrow> double \<Rightarrow> double" where
  "jadd (Finite x) (Finite y) = to_double (x + y)"
| "jadd NaN b = NaN"
| "jadd a NaN = NaN"
| "jadd PInf NInf = NaN"
| "jadd NInf PInf = NaN"
| "jadd PInf b = PInf"
| "jadd a PInf = PInf"
| "jadd NInf b = NInf"
| "jadd a NInf = NInf"

definition jsub :: "double \<Rightarrow> double \<Rightarrow> double" where
  "jsub a b = jadd a (jneg b)"

fun jmul :: "double \<Rightarrow> double \<Rightarrow> double" where
  "jmul (Finite x) (Finite y) = to_double (x * y)"
| "jmul NaN b = NaN"
| "jmul a NaN = NaN"
| "jmul (Finite x) PInf = (if x = 0 then NaN else if 0 < x then PInf else NInf)"
| "jmul (Finite x) NInf = (if x = 0 then NaN else if 0 < x then NInf else PInf)"
| "jmul PInf (Finite y) = (if y = 0 then NaN else if 0 < y then PInf else NInf)"
| "jmul NInf (Finite y) = (if y = 0 then NaN else if 0 < y then NInf else PInf)"
| "jmul PInf PInf = PInf"
| "jmul NInf NInf = PInf"
| "jmul PInf NInf = NInf"
| "jmul NInf PInf = NInf"

fun jdiv :: "double \<Rightarrow> double \<Rightarrow> double" where
  "jdiv (Finite x) (Finite y) =
     (if y = 0 then (if x = 0 then NaN else if 0 < x then PInf else NInf)
      else to_double (x / y))"
| "jdiv NaN b = NaN"
| "jdiv a NaN = NaN"
| "jdiv (Finite x) b = Finite 0"
| "jdiv PInf (Finite y) = (if 0 \<le> y then PInf else NInf)"
| "jdiv NInf (Finite y) = (if 0 \<le> y then NInf else PInf)"
| "jdiv a b = NaN"

fun jless :: "double \<Rightarrow> double \<Rightarrow> bool" where
  "jless (Finite x) (Finite y) \<longleftrightarrow> x < y"
| "jless NaN b \<longleftrightarrow> False"
| "jless a NaN \<longleftrightarrow> False"
| "jless a NInf \<longleftrightarrow> False"
| "jless PInf b \<longleftrightarrow> False"
| "jless a b \<longleftrightarrow> True"

fun jle :: "double \<Rightarrow> double \<Rightarrow> bool" where
  "jle (Finite x) (Finite y) \<longleftrightarrow> x \<le> y"
| "jle NaN b \<longleftrightarrow> False"
| "jle a NaN \<longleftrightarrow> False"
| "jle NInf b \<longleftrightarrow> True"
| "jle a PInf \<longleftrightarrow> True"
| "jle a b \<longleftrightarrow> False"

fun jmin :: "double \<Rightarrow> double \<Rightarrow> double" where
  "jmin NaN b = NaN"
| "jmin a NaN = NaN"
| "jmin a b = (if jle a b then a else b)"

fun jmax :: "double \<Rightarrow> double \<Rightarrow> double" where
  "jmax NaN b = NaN"
| "jmax a NaN = NaN"
| "jmax a b = (if jle a b then b else a)"

fun jround :: "double \<Rightarrow> double" where
  "jround (Finite x) = Finite (of_int \<lfloor>x + 1 / 2\<rfloor>)"
| "jround a = a"

section \<open>Data model (types.ts)\<close>

record Taxes =
  federal :: real
  state :: real
  fica :: real
  total_tax :: real  \<comment> \<open>field \<^verbatim>\<open>total\<close>\<close>

record Allocations =
  housing :: real
  food :: real
  general :: real
  savings :: real

record BudgetBreakdown =
  netMonthlyIncome :: real
  taxes :: Taxes
  allocations :: Allocations

text \<open>The keys of \<^verbatim>\<open>allocations\<close>, and reading and writing a field by key.\<close>

datatype category = Housing | Food | General | Savings

fun get_alloc :: "Allocations \<Rightarrow> category \<Rightarrow> real" where
  "get_alloc a Housing = housing a"
| "get_alloc a Food = food a"
| "get_alloc a General = general a"
| "get_alloc a Savings = savings a"

fun set_alloc :: "Allocations \<Rightarrow> category \<Rightarrow> real \<Rightarrow> Allocations" where
  "set_alloc a Housing v = a\<lparr>housing := v\<rparr>"
| "set_alloc a Food v = a\<lparr>food := v\<rparr>"
| "set_alloc a General v = a\<lparr>general := v\<rparr>"
| "set_alloc a Savings v = a\<lparr>savings := v\<rparr>"

section \<open>Tax estimate and initial budget (App.tsx, calculateBudget)\<close>

definition federalTax :: "real \<Rightarrow> real" where
  \<comment> \<open>The bracket chain of lines 26 to 36, as a function of \<^verbatim>\<open>taxable\<close>.\<close>
  "federalTax taxable =
     (if taxable > 609350 then (taxable - 609350) * 0.37 + 183647
      else if taxable > 243725 then (taxable - 243725) * 0.35 + 55678.5
      else if taxable > 191950 then (taxable - 191950) * 0.32 + 39110.5
      else if taxable > 100525 then (taxable - 100525) * 0.24 + 17168.5
      else if taxable > 47150 then (taxable - 47150) * 0.22 + 5426
      else if taxable > 11600 then (taxable - 11600) * 0.12 + 1160
      else taxable * 0.10)"

definition calculateBudget :: "real \<Rightarrow> real \<Rightarrow> BudgetBreakdown" where
  \<comment> \<open>\<open>baseRate\<close> is \<^verbatim>\<open>stateInfo.baseRate\<close>, looked up in the table \<^verbatim>\<open>US_STATES\<close>.\<close>
  "calculateBudget income baseRate =
     (let taxable = max 0 (income - 14600);
          federalTax = federalTax taxable;
          fica = income * 0.0765;
          stateTax = max 0 ((income - 14600) * baseRate);
          totalTax = federalTax + stateTax + fica;
          netIncome = income - totalTax;
          netMonthly = netIncome / 12
      in \<lparr>netMonthlyIncome = netMonthly,
          taxes = \<lparr>federal = federalTax, state = stateTax, fica = fica, total_tax = totalTax\<rparr>,
          allocations = \<lparr>housing = netMonthly * 0.35, food = netMonthly * 0.15,
                         general = netMonthly * 0.20, savings = netMonthly * 0.30\<rparr>\<rparr>)"

section \<open>Rebalancing the allocations (App.tsx, updateAllocation)\<close>

definition withdrawalOrder :: "category list" where
  "withdrawalOrder = [Savings, General, Food, Housing]"

definition depositOrder :: "category list" where
  "depositOrder = [Savings, General]"

text \<open>
  The loop of lines 96 to 108 over the sources still to visit. The state is the pair of
  \<^verbatim>\<open>newAllocations\<close> and \<^verbatim>\<open>remainingDiff\<close>; \<^verbatim>\<open>continue\<close> goes on with the rest of the
  list and \<^verbatim>\<open>break\<close> returns the state.
\<close>

fun withdraw :: "category \<Rightarrow> category list \<Rightarrow> Allocations \<times> real \<Rightarrow> Allocations \<times> real" where
  "withdraw category [] (newAllocations, remainingDiff) = (newAllocations, remainingDiff)"
| "withdraw category (source # rest) (newAllocations, remainingDiff) =
     (if source = category then withdraw category rest (newAllocations, remainingDiff)
      else if \<bar>remainingDiff\<bar> < 0.001 then (newAllocations, remainingDiff)
      else
        let available = get_alloc newAllocations source in
        if available \<le> 0 then withdraw category rest (newAllocations, remainingDiff)
        else
          let toTake = min available remainingDiff in
          withdraw category rest
            (set_alloc newAllocations source (get_alloc newAllocations source - toTake),
             remainingDiff - toTake))"

text \<open>
  The loop of lines 116 to 122: the first target that is not the edited category
  receives all of \<^verbatim>\<open>moneyToGive\<close>, and the loop ends there.
\<close>

fun deposit :: "category \<Rightarrow> category list \<Rightarrow> Allocations \<Rightarrow> real \<Rightarrow> Allocations" where
  "deposit category [] newAllocations moneyToGive = newAllocations"
| "deposit category (target # rest) newAllocations moneyToGive =
     (if target = category then deposit category rest newAllocations moneyToGive
      else set_alloc newAllocations target (get_alloc newAllocations target + moneyToGive))"

definition alloc_sum :: "Allocations \<Rightarrow> real" where
  \<comment> \<open>\<^verbatim>\<open>Object.values(newAllocations).reduce((a, b) => a + b, 0)\<close>, in key order.\<close>
  "alloc_sum a = 0 + housing a + food a + general a + savings a"

definition sanity_check :: "real \<Rightarrow> Allocations \<Rightarrow> Allocations" where
  \<comment> \<open>Lines 126 to 131, \<open>net\<close> being \<^verbatim>\<open>netMonthlyIncome\<close>: a discrepancy above the tolerance
      goes into savings.\<close>
  "sanity_check net newAllocations =
     (let sum = alloc_sum newAllocations;
          error = net - sum
      in if \<bar>error\<bar> > 0.001
         then newAllocations\<lparr>savings := savings newAllocations + error\<rparr>
         else newAllocations)"

text \<open>
  \<^verbatim>\<open>budgetData\<close> is the component's state, \<^verbatim>\<open>null\<close> before the first calculation; the
  function returns the state it leaves behind (an early \<^verbatim>\<open>return\<close> leaves it as it was).
\<close>

definition updateAllocation ::
  "BudgetBreakdown option \<Rightarrow> category \<Rightarrow> real \<Rightarrow> BudgetBreakdown option" where
  "updateAllocation budgetData category newVal =
     (case budgetData of
        None \<Rightarrow> None
      | Some bd \<Rightarrow>
          if netMonthlyIncome bd \<le> 0 then Some bd
          else
            let safeVal = max 0 (min newVal (netMonthlyIncome bd));
                currentVal = get_alloc (allocations bd) category;
                diff = safeVal - currentVal
            in if \<bar>diff\<bar> < 0.001 then Some bd
               else
                 let newAllocations = set_alloc (allocations bd) category safeVal;
                     remainingDiff = diff;
                     newAllocations =
                       (if remainingDiff > 0
                        then fst (withdraw category withdrawalOrder (newAllocations, remainingDiff))
                        else deposit category depositOrder newAllocations \<bar>remainingDiff\<bar>);
                     newAllocations = sanity_check (netMonthlyIncome bd) newAllocations
                 in Some (bd\<lparr>allocations := newAllocations\<rparr>))"

text \<open>A sequence of edits, each a category and its new value, applied from left to right.\<close>

fun updateAllocations ::
  "BudgetBreakdown option \<Rightarrow> (category \<times> real) list \<Rightarrow> BudgetBreakdown option" where
  "updateAllocations budgetData [] = budgetData"
| "updateAllocations budgetData ((category, newVal) # edits) =
     updateAllocations (updateAllocation budgetData category newVal) edits"

text \<open>
  The withdrawal as the specification words it, for comparison with \<open>withdraw\<close>: visit the
  donors in order, skip the edited category, take \<open>min donorBalance remainingDelta\<close> from
  each, stop when the remaining delta is within 0.001 of zero or no donor is left.
\<close>

fun spec_withdraw :: "category \<Rightarrow> category list \<Rightarrow> Allocations \<times> real \<Rightarrow> Allocations \<times> real" where
  "spec_withdraw edited [] (a, remainingDelta) = (a, remainingDelta)"
| "spec_withdraw edited (donor # donors) (a, remainingDelta) =
     (if donor = edited then spec_withdraw edited donors (a, remainingDelta)
      else if \<bar>remainingDelta\<bar> < 0.001 then (a, remainingDelta)
      else
        let taken = min (get_alloc a donor) remainingDelta in
        spec_withdraw edited donors
          (set_alloc a donor (get_alloc a donor - taken), remainingDelta - taken))"

text \<open>The four amounts are non-negative; they sum to the budget within the tolerance.\<close>

definition non_negative :: "Allocations \<Rightarrow> bool" where
  "non_negative a \<longleftrightarrow> 0 \<le> housing a \<and> 0 \<le> food a \<and> 0 \<le> general a \<and> 0 \<le> savings a"

definition conserved :: "real \<Rightarrow> Allocations \<Rightarrow> bool" where
  "conserved totalBudget a \<longleftrightarrow> \<bar>alloc_sum a - totalBudget\<bar> \<le> 0.001"

definition within_budget :: "real \<Rightarrow> Allocations \<Rightarrow> bool" where
  \<comment> \<open>As \<open>non_negative\<close> and \<open>conserved\<close> together, but with nothing said about savings.\<close>
  "within_budget totalBudget a \<longleftrightarrow>
     0 \<le> housing a \<and> 0 \<le> food a \<and> 0 \<le> general a \<and> conserved totalBudget a"

text \<open>An allocation with every negative amount replaced by zero.\<close>

definition positive_part :: "Allocations \<Rightarrow> Allocations" where
  "positive_part a =
     \<lparr>housing = max 0 (housing a), food = max 0 (food a),
      general = max 0 (general a), savings = max 0 (savings a)\<rparr>"

section \<open>Growth projection (InvestmentChart), in binary64\<close>

text \<open>A chart point. The label \<^verbatim>\<open>`Year ${year}`\<close> is kept as the number it shows.\<close>

record GrowthPoint =
  year_g :: nat
  investAmount :: double
  bankAmount :: double
  difference :: double

text \<open>
  The loop of lines 255 to 271, \<^verbatim>\<open>for (let year = 0; year <= years; year++)\<close>: the first
  argument counts the iterations still to run, the pair holds \<^verbatim>\<open>currentInvestAmount\<close> and
  \<^verbatim>\<open>currentBankAmount\<close>.
\<close>

fun growth_loop ::
  "double \<Rightarrow> double \<Rightarrow> double \<Rightarrow> double \<Rightarrow> nat \<Rightarrow> nat \<Rightarrow> double \<times> double
   \<Rightarrow> GrowthPoint list \<Rightarrow> GrowthPoint list" where
  "growth_loop monthlyInvest monthlyBank investRateDecimal bankRateDecimal 0 year
     (currentInvestAmount, currentBankAmount) result = result"
| "growth_loop monthlyInvest monthlyBank investRateDecimal bankRateDecimal (Suc todo) year
     (currentInvestAmount, currentBankAmount) result =
     growth_loop monthlyInvest monthlyBank investRateDecimal bankRateDecimal todo (Suc year)
       (jmul (jadd currentInvestAmount (jmul monthlyInvest (Finite 12)))
             (jadd (Finite 1) investRateDecimal),
        jmul (jadd currentBankAmount (jmul monthlyBank (Finite 12)))
             (jadd (Finite 1) bankRateDecimal))
       (result @ [\<lparr>year_g = year,
                    investAmount = jround currentInvestAmount,
                    bankAmount = jround currentBankAmount,
                    difference = jround (jsub currentInvestAmount currentBankAmount)\<rparr>])"

text \<open>The memoised \<^verbatim>\<open>data\<close> of the component, from its property and its three state values.\<close>

definition investmentData :: "double \<Rightarrow> double \<Rightarrow> double \<Rightarrow> double \<Rightarrow> GrowthPoint list" where
  "investmentData monthlyContribution investRatio investReturnRatePercent bankReturnRatePercent =
     (let monthlyInvest = jmul monthlyContribution investRatio;
          monthlyBank = jmul monthlyContribution (jsub (Finite 1) investRatio);
          years = 30;
          investRateDecimal = jdiv investReturnRatePercent (Finite 100);
          bankRateDecimal = jdiv bankReturnRatePercent (Finite 100)
      in growth_loop monthlyInvest monthlyBank investRateDecimal bankRateDecimal
           (years + 1) 0 (Finite 0, Finite 0) [])"

text \<open>
  The balance of one track as the specification gives it, computed as the program
  computes: nothing in year 0, and each year the twelve contributions are added before the
  year's growth.
\<close>

primrec spec_balance :: "double \<Rightarrow> double \<Rightarrow> nat \<Rightarrow> double" where
  "spec_balance monthlyAmount annualRate 0 = Finite 0"
| "spec_balance monthlyAmount annualRate (Suc n) =
     jmul (jadd (spec_balance monthlyAmount annualRate n) (jmul monthlyAmount (Finite 12)))
          (jadd (Finite 1) annualRate)"

text \<open>The point that the specification expects for year \<open>k\<close>, rounded as the chart does.\<close>

definition spec_point :: "double \<Rightarrow> double \<Rightarrow> double \<Rightarrow> double \<Rightarrow> nat \<Rightarrow> GrowthPoint" where
  "spec_point mI mB rI rB k =
     \<lparr>year_g = k,
      investAmount = jround (spec_balance mI rI k),
      bankAmount = jround (spec_balance mB rB k),
      difference = jround (jsub (spec_balance mI rI k) (spec_balance mB rB k))\<rparr>"

section \<open>Mortgage payoff (HousingSearch, mortgageData)\<close>

record ChartPoint =
  year :: nat  \<comment> \<open>the label \<^verbatim>\<open>`Year ${i/12}`\<close>, as the number it shows\<close>
  balanceStandard :: real
  balanceAccelerated :: real

text \<open>The local variables of the simulation.\<close>

record Sim =
  b1 :: real
  b2 :: real
  totalInterest1 :: real
  totalInterest2 :: real
  months1 :: nat
  months2 :: nat
  data :: "ChartPoint list"

record MortgageData =
  interestSaved :: real
  timeSavedMonths :: int
  totalInterestStandard :: real
  payoffYearsStandard :: real  \<comment> \<open>the number that the string shows\<close>
  payoffYearsAccelerated :: real
  chartData :: "ChartPoint list"

definition maxMonths :: nat where
  "maxMonths = 720"

definition record_point :: "nat \<Rightarrow> Sim \<Rightarrow> Sim" where
  \<comment> \<open>Lines 59 to 65.\<close>
  "record_point i s =
     (if i mod 12 = 0 \<and> (b1 s > 0 \<or> b2 s > 0)
      then s\<lparr>data := data s @ [\<lparr>year = i div 12,
                                  balanceStandard = max 0 (js_round (b1 s)),
                                  balanceAccelerated = max 0 (js_round (b2 s))\<rparr>]\<rparr>
      else s)"

definition standard_step :: "real \<Rightarrow> real \<Rightarrow> Sim \<Rightarrow> Sim" where
  \<comment> \<open>Lines 68 to 74.\<close>
  "standard_step r monthlyPayment s =
     (if b1 s > 0
      then let interest = b1 s * r;
               principal = min (b1 s) (monthlyPayment - interest)
           in s\<lparr>totalInterest1 := totalInterest1 s + interest,
                b1 := b1 s - principal,
                months1 := months1 s + 1\<rparr>
      else s)"

definition accelerated_step :: "real \<Rightarrow> real \<Rightarrow> real \<Rightarrow> Sim \<Rightarrow> Sim" where
  \<comment> \<open>Lines 77 to 84.\<close>
  "accelerated_step r monthlyPayment extraPrincipal s =
     (if b2 s > 0
      then let interest = b2 s * r;
               totalPay = monthlyPayment + extraPrincipal;
               principal = min (b2 s) (totalPay - interest)
           in s\<lparr>totalInterest2 := totalInterest2 s + interest,
                b2 := b2 s - principal,
                months2 := months2 s + 1\<rparr>
      else s)"

definition loop_body :: "real \<Rightarrow> real \<Rightarrow> real \<Rightarrow> nat \<Rightarrow> Sim \<Rightarrow> Sim" where
  \<comment> \<open>One iteration of the loop, up to the test for \<^verbatim>\<open>break\<close>.\<close>
  "loop_body r monthlyPayment extraPrincipal i s =
     accelerated_step r monthlyPayment extraPrincipal
       (standard_step r monthlyPayment (record_point i s))"

text \<open>
  The loop \<^verbatim>\<open>for (let i = 0; i <= maxMonths; i++)\<close>: the fourth argument counts the
  iterations still to run, and \<^verbatim>\<open>break\<close> returns the state.
\<close>

fun amort_loop :: "real \<Rightarrow> real \<Rightarrow> real \<Rightarrow> nat \<Rightarrow> nat \<Rightarrow> Sim \<Rightarrow> Sim" where
  "amort_loop r monthlyPayment extraPrincipal 0 i s = s"
| "amort_loop r monthlyPayment extraPrincipal (Suc todo) i s =
     (let s' = loop_body r monthlyPayment extraPrincipal i s
      in if b1 s' \<le> 0 \<and> b2 s' \<le> 0 then s'
         else amort_loop r monthlyPayment extraPrincipal todo (Suc i) s')"

definition initial_sim :: "real \<Rightarrow> Sim" where
  \<comment> \<open>Lines 46 to 52.\<close>
  "initial_sim loanBalance =
     \<lparr>b1 = loanBalance, b2 = loanBalance, totalInterest1 = 0, totalInterest2 = 0,
      months1 = 0, months2 = 0, data = []\<rparr>"

definition mortgageData :: "real \<Rightarrow> real \<Rightarrow> real \<Rightarrow> real \<Rightarrow> MortgageData option" where
  \<comment> \<open>\<open>None\<close> is the \<^verbatim>\<open>null\<close> of line 43.\<close>
  "mortgageData loanBalance interestRate monthlyPayment extraPrincipal =
     (let r = interestRate / 100 / 12
      in if r \<le> 0 \<or> monthlyPayment \<le> loanBalance * r then None
         else
           let s = amort_loop r monthlyPayment extraPrincipal (maxMonths + 1) 0
                     (initial_sim loanBalance)
           in Some \<lparr>interestSaved = js_round (totalInterest1 s - totalInterest2 s),
                    timeSavedMonths = max 0 (int (months1 s) - int (months2 s)),
                    totalInterestStandard = js_round (totalInterest1 s),
                    payoffYearsStandard = toFixed1 (real (months1 s) / 12),
                    payoffYearsAccelerated = toFixed1 (real (months2 s) / 12),
                    chartData = data s\<rparr>)"

text \<open>
  The state after \<open>n\<close> iterations of the loop (fewer when it has left by \<^verbatim>\<open>break\<close>), for
  the properties of every month of the simulation.
\<close>

definition sim_after :: "real \<Rightarrow> real \<Rightarrow> real \<Rightarrow> real \<Rightarrow> nat \<Rightarrow> Sim" where
  "sim_after loanBalance r monthlyPayment extraPrincipal n =
     amort_loop r monthlyPayment extraPrincipal n 0 (initial_sim loanBalance)"

text \<open>The point pushed at iteration \<open>i\<close> in state \<open>s\<close>, and the test that guards the push.\<close>

definition chart_point :: "Sim \<Rightarrow> nat \<Rightarrow> ChartPoint" where
  "chart_point s i =
     \<lparr>year = i div 12,
      balanceStandard = max 0 (js_round (b1 s)),
      balanceAccelerated = max 0 (js_round (b2 s))\<rparr>"

definition recorded_at :: "real \<Rightarrow> real \<Rightarrow> real \<Rightarrow> real \<Rightarrow> nat \<Rightarrow> bool" where
  "recorded_at B r M E i \<longleftrightarrow>
     i mod 12 = 0 \<and> (0 < b1 (sim_after B r M E i) \<or> 0 < b2 (sim_after B r M E i))"

text \<open>
  The balance of a loan after \<open>n\<close> payments none of which was the last: each month the
  interest is added and the payment taken.
\<close>

primrec open_balance :: "real \<Rightarrow> real \<Rightarrow> real \<Rightarrow> nat \<Rightarrow> real" where
  "open_balance r payment B 0 = B"
| "open_balance r payment B (Suc n) = open_balance r payment B n * (1 + r) - payment"

section \<open>Mortgage payoff (HousingSearch, mortgageData), in binary64\<close>

text \<open>
  The same function with every operation rounded as the program rounds it. The payoff
  times are the numbers shown by \<^verbatim>\<open>toFixed(1)\<close>.
\<close>

record ChartPoint64 =
  year64 :: nat
  balanceStandard64 :: double
  balanceAccelerated64 :: double

record Sim64 =
  b1_64 :: double
  b2_64 :: double
  totalInterest1_64 :: double
  totalInterest2_64 :: double
  months1_64 :: nat
  months2_64 :: nat
  data64 :: "ChartPoint64 list"

record MortgageData64 =
  interestSaved64 :: double
  timeSavedMonths64 :: int
  totalInterestStandard64 :: double
  payoffYearsStandard64 :: real
  payoffYearsAccelerated64 :: real
  chartData64 :: "ChartPoint64 list"

definition record_point64 :: "nat \<Rightarrow> Sim64 \<Rightarrow> Sim64" where
  "record_point64 i s =
     (if i mod 12 = 0 \<and> (jless (Finite 0) (b1_64 s) \<or> jless (Finite 0) (b2_64 s))
      then s\<lparr>data64 := data64 s @ [\<lparr>year64 = i div 12,
                                      balanceStandard64 = jmax (Finite 0) (jround (b1_64 s)),
                                      balanceAccelerated64 = jmax (Finite 0) (jround (b2_64 s))\<rparr>]\<rparr>
      else s)"

definition standard_step64 :: "double \<Rightarrow> double \<Rightarrow> Sim64 \<Rightarrow> Sim64" where
  "standard_step64 r monthlyPayment s =
     (if jless (Finite 0) (b1_64 s)
      then let interest = jmul (b1_64 s) r;
               principal = jmin (b1_64 s) (jsub monthlyPayment interest)
           in s\<lparr>totalInterest1_64 := jadd (totalInterest1_64 s) interest,
                b1_64 := jsub (b1_64 s) principal,
                months1_64 := months1_64 s + 1\<rparr>
      else s)"

definition accelerated_step64 :: "double \<Rightarrow> double \<Rightarrow> double \<Rightarrow> Sim64 \<Rightarrow> Sim64" where
  "accelerated_step64 r monthlyPayment extraPrincipal s =
     (if jless (Finite 0) (b2_64 s)
      then let interest = jmul (b2_64 s) r;
               totalPay = jadd monthlyPayment extraPrincipal;
               principal = jmin (b2_64 s) (jsub totalPay interest)
           in s\<lparr>totalInterest2_64 := jadd (totalInterest2_64 s) interest,
                b2_64 := jsub (b2_64 s) principal,
                months2_64 := months2_64 s + 1\<rparr>
      else s)"

definition loop_body64 :: "double \<Rightarrow> double \<Rightarrow> double \<Rightarrow> nat \<Rightarrow> Sim64 \<Rightarrow> Sim64" where
  "loop_body64 r monthlyPayment extraPrincipal i s =
     accelerated_step64 r monthlyPayment extraPrincipal
       (standard_step64 r monthlyPayment (record_point64 i s))"

fun amort_loop64 :: "double \<Rightarrow> double \<Rightarrow> double \<Rightarrow> nat \<Rightarrow> nat \<Rightarrow> Sim64 \<Rightarrow> Sim64" where
  "amort_loop64 r monthlyPayment extraPrincipal 0 i s = s"
| "amort_loop64 r monthlyPayment extraPrincipal (Suc todo) i s =
     (let s' = loop_body64 r monthlyPayment extraPrincipal i s
      in if jle (b1_64 s') (Finite 0) \<and> jle (b2_64 s') (Finite 0) then s'
         else amort_loop64 r monthlyPayment extraPrincipal todo (Suc i) s')"

definition initial_sim64 :: "double \<Rightarrow> Sim64" where
  "initial_sim64 loanBalance =
     \<lparr>b1_64 = loanBalance, b2_64 = loanBalance,
      totalInterest1_64 = Finite 0, totalInterest2_64 = Finite 0,
      months1_64 = 0, months2_64 = 0, data64 = []\<rparr>"

definition mortgageData64 ::
  "double \<Rightarrow> double \<Rightarrow> double \<Rightarrow> double \<Rightarrow> MortgageData64 option" where
  "mortgageData64 loanBalance interestRate monthlyPayment extraPrincipal =
     (let r = jdiv (jdiv interestRate (Finite 100)) (Finite 12)
      in if jle r (Finite 0) \<or> jle monthlyPayment (jmul loanBalance r) then None
         else
           let s = amort_loop64 r monthlyPayment extraPrincipal (maxMonths + 1) 0
                     (initial_sim64 loanBalance)
           in Some \<lparr>interestSaved64 =
                      jround (jsub (totalInterest1_64 s) (totalInterest2_64 s)),
                    timeSavedMonths64 = max 0 (int (months1_64 s) - int (months2_64 s)),
                    totalInterestStandard64 = jround (totalInterest1_64 s),
                    payoffYearsStandard64 = toFixed1 (nearest64 (real (months1_64 s) / 12)),
                    payoffYearsAccelerated64 = toFixed1 (nearest64 (real (months2_64 s) / 12)),
                    chartData64 = data64 s\<rparr>)"

section \<open>The tax estimate: theorems\<close>

lemma federalTax_continuous_lower_boundaries:
  "federalTax 11600 = 1160" "federalTax 47150 = 5426" "federalTax 100525 = 17168.5"
  "federalTax 191950 = 39110.5" "federalTax 243725 = 55678.5"
  by (simp_all add: federalTax_def)

text \<open>
  Below the last boundary the federal tax, and with it the total, never falls when the
  income rises; the same holds above it.
\<close>

lemma federalTax_mono_below:
  assumes "x \<le> y" and "y \<le> 609350"
  shows "federalTax x \<le> federalTax y"
  using assms unfolding federalTax_def by (auto simp: algebra_simps)

lemma federalTax_mono_above:
  assumes "x \<le> y" and "609350 < x"
  shows "federalTax x \<le> federalTax y"
  using assms unfolding federalTax_def by simp

lemma total_tax_mono_below:
  assumes "0 \<le> baseRate" and "income1 \<le> income2" and "income2 \<le> 623950"
  shows "total_tax (taxes (calculateBudget income1 baseRate))
         \<le> total_tax (taxes (calculateBudget income2 baseRate))"
proof -
  have f: "federalTax (max 0 (income1 - 14600)) \<le> federalTax (max 0 (income2 - 14600))"
    using assms(2,3) by (intro federalTax_mono_below) simp_all
  have "(income1 - 14600) * baseRate \<le> (income2 - 14600) * baseRate"
    using assms(1,2) by (simp add: mult_right_mono)
  then have s: "max 0 ((income1 - 14600) * baseRate) \<le> max 0 ((income2 - 14600) * baseRate)"
    by simp
  show ?thesis
    using f s assms(2) by (simp add: calculateBudget_def Let_def)
qed

text \<open>
  C7. For income 60000 and a state base rate of 0 the taxable income is 45400, the federal
  tax is the 12 percent bracket on it (5216), FICA is 4590, the state tax is 0, the net
  monthly income is (60000 - federal - 4590) / 12, and the initial allocations are 35, 15,
  20 and 30 percent of the net monthly income, which sum to it.
\<close>

theorem calculateBudget_60000:
  "max 0 (60000 - 14600) = (45400::real)
   \<and> federal (taxes (calculateBudget 60000 0)) = federalTax 45400
   \<and> federalTax 45400 = (45400 - 11600) * 0.12 + 1160
   \<and> fica (taxes (calculateBudget 60000 0)) = 4590
   \<and> state (taxes (calculateBudget 60000 0)) = 0
   \<and> netMonthlyIncome (calculateBudget 60000 0)
       = (60000 - federal (taxes (calculateBudget 60000 0)) - 4590) / 12
   \<and> housing (allocations (calculateBudget 60000 0))
       = 0.35 * netMonthlyIncome (calculateBudget 60000 0)
   \<and> food (allocations (calculateBudget 60000 0))
       = 0.15 * netMonthlyIncome (calculateBudget 60000 0)
   \<and> general (allocations (calculateBudget 60000 0))
       = 0.20 * netMonthlyIncome (calculateBudget 60000 0)
   \<and> savings (allocations (calculateBudget 60000 0))
       = 0.30 * netMonthlyIncome (calculateBudget 60000 0)
   \<and> \<bar>housing (allocations (calculateBudget 60000 0))
        + food (allocations (calculateBudget 60000 0))
        + general (allocations (calculateBudget 60000 0))
        + savings (allocations (calculateBudget 60000 0))
        - netMonthlyIncome (calculateBudget 60000 0)\<bar> \<le> 0.001"
  by (simp add: calculateBudget_def federalTax_def Let_def)

text \<open>
  C10. The bracket chain is continuous at 11600, 47150, 100525, 191950 and 243725, but not
  at 609350: the 35 percent bracket reaches 183647.25 there, and the 37 percent bracket
  starts from the constant 183647, so the tax falls by a quarter just above the boundary.
\<close>

theorem federalTax_jump_at_609350:
  "federalTax 609350 = 55678.5 + (609350 - 243725) * 0.35
   \<and> federalTax 609350 = 183647.25
   \<and> federalTax 609350 \<noteq> 183647
   \<and> federalTax (609350 + 1 / 4) = 183647 + 0.0925
   \<and> federalTax (609350 + 1 / 4) < federalTax 609350"
  by (simp add: federalTax_def)

text \<open>
  C5. The total tax is not monotone in the income: with no state tax, the income 623950.25
  is taxed less in total than the income 623950, because the federal tax falls by a
  quarter where the taxable income passes 609350.
\<close>

theorem total_tax_not_monotone:
  "total_tax (taxes (calculateBudget 623950 0)) = 231379.425
   \<and> total_tax (taxes (calculateBudget 623950.25 0)) = 231379.286625
   \<and> total_tax (taxes (calculateBudget 623950.25 0))
       < total_tax (taxes (calculateBudget 623950 0))"
  by (simp add: calculateBudget_def federalTax_def Let_def)

section \<open>Rebalancing: the withdrawal loop\<close>

lemma get_set_alloc: "get_alloc (set_alloc a d v) e = (if d = e then v else get_alloc a e)"
  by (cases d; cases e) simp_all

lemma set_get_alloc_same: "set_alloc a d (get_alloc a d) = a"
  by (cases d) simp_all

lemma alloc_sum_set: "alloc_sum (set_alloc a d v) = alloc_sum a - get_alloc a d + v"
  by (cases d) (simp_all add: alloc_sum_def)

lemma withdraw_small: "\<bar>r\<bar> < 0.001 \<Longrightarrow> withdraw c xs (a, r) = (a, r)"
  by (induction xs) simp_all

lemma withdraw_remaining: "0 \<le> r \<Longrightarrow> 0 \<le> snd (withdraw c xs (a, r))"
  by (induction xs arbitrary: a r) (simp_all add: Let_def)

lemma withdraw_self: "get_alloc (fst (withdraw c xs (a, r))) c = get_alloc a c"
  by (induction xs arbitrary: a r) (simp_all add: Let_def get_set_alloc)

lemma withdraw_le: "0 \<le> r \<Longrightarrow> get_alloc (fst (withdraw c xs (a, r))) d \<le> get_alloc a d"
proof (induction xs arbitrary: a r)
  case Nil
  then show ?case by simp
next
  case (Cons x xs)
  have step: "get_alloc (fst (withdraw c xs (set_alloc a x (get_alloc a x - min (get_alloc a x) r), r - min (get_alloc a x) r))) d
     \<le> get_alloc a d" if "0 < get_alloc a x"
  proof -
    have "0 \<le> r - min (get_alloc a x) r" by simp
    from Cons.IH [OF this]
    have "get_alloc (fst (withdraw c xs (set_alloc a x (get_alloc a x - min (get_alloc a x) r), r - min (get_alloc a x) r))) d
      \<le> get_alloc (set_alloc a x (get_alloc a x - min (get_alloc a x) r)) d" .
    also have "\<dots> \<le> get_alloc a d"
      using that Cons.prems by (auto simp: get_set_alloc min_def)
    finally show ?thesis .
  qed
  show ?case using Cons.IH [OF Cons.prems] step by (simp add: Let_def)
qed

lemma withdraw_ge: "0 \<le> r \<Longrightarrow> min 0 (get_alloc a d) \<le> get_alloc (fst (withdraw c xs (a, r))) d"
proof (induction xs arbitrary: a r)
  case Nil
  then show ?case by simp
next
  case (Cons x xs)
  have step: "min 0 (get_alloc a d) \<le> 
     get_alloc (fst (withdraw c xs (set_alloc a x (get_alloc a x - min (get_alloc a x) r), r - min (get_alloc a x) r))) d"
    if "0 < get_alloc a x"
  proof -
    have "0 \<le> r - min (get_alloc a x) r" by simp
    from Cons.IH [OF this]
    have "min 0 (get_alloc (set_alloc a x (get_alloc a x - min (get_alloc a x) r)) d)
      \<le> get_alloc (fst (withdraw c xs (set_alloc a x (get_alloc a x - min (get_alloc a x) r), r - min (get_alloc a x) r))) d" .
    moreover have "min 0 (get_alloc a d) \<le> min 0 (get_alloc (set_alloc a x (get_alloc a x - min (get_alloc a x) r)) d)"
      using that Cons.prems by (auto simp: get_set_alloc min_def)
    ultimately show ?thesis by linarith
  qed
  show ?case using Cons.IH [OF Cons.prems] step by (simp add: Let_def)
qed

lemma withdraw_sum: "alloc_sum (fst (withdraw c xs (a, r))) - snd (withdraw c xs (a, r)) = alloc_sum a - r"
  by (induction xs arbitrary: a r) (simp_all add: Let_def alloc_sum_set)

lemma withdraw_drained:
  "0 \<le> r \<Longrightarrow> snd (withdraw c xs (a, r)) < 0.001
     \<or> (\<forall>d\<in>set xs. d \<noteq> c \<longrightarrow> get_alloc (fst (withdraw c xs (a, r))) d \<le> 0)"
proof (induction xs arbitrary: a r)
  case Nil
  then show ?case by simp
next
  case (Cons x xs)
  show ?case
  proof (cases "x = c")
    case True
    then show ?thesis using Cons.IH [OF Cons.prems, of a] by auto
  next
    case xc: False
    show ?thesis
    proof (cases "\<bar>r\<bar> < 0.001")
      case True
      then have "withdraw c (x # xs) (a, r) = (a, r)" "r < 0.001" using xc by simp_all
      then show ?thesis by simp
    next
      case big: False
      show ?thesis
      proof (cases "get_alloc a x \<le> 0")
        case True
        have eq: "withdraw c (x # xs) (a, r) = withdraw c xs (a, r)"
          using xc big True by simp
        have "get_alloc (fst (withdraw c xs (a, r))) x \<le> 0"
          using withdraw_le [OF Cons.prems, of c xs a x] True by linarith
        then show ?thesis using Cons.IH [OF Cons.prems, of a] eq by auto
      next
        case pos: False
        let ?t = "min (get_alloc a x) r"
        let ?a = "set_alloc a x (get_alloc a x - ?t)"
        have eq: "withdraw c (x # xs) (a, r) = withdraw c xs (?a, r - ?t)"
          using xc big pos by (simp add: Let_def)
        have r': "0 \<le> r - ?t" by simp
        show ?thesis
        proof (cases "get_alloc a x < r")
          case True
          then have "get_alloc ?a x = 0" by (simp add: get_set_alloc)
          then have "get_alloc (fst (withdraw c xs (?a, r - ?t))) x \<le> 0"
            using withdraw_le [OF r', of c xs ?a x] by linarith
          then show ?thesis using Cons.IH [OF r', of ?a] eq by auto
        next
          case False
          then have "r - ?t = 0" by simp
          then have "withdraw c xs (?a, r - ?t) = (?a, 0)"
            using withdraw_small [of 0 c xs ?a] by simp
          then show ?thesis using eq by simp
        qed
      qed
    qed
  qed
qed

lemma withdraw_refines_spec:
  "0 \<le> r \<Longrightarrow> non_negative a \<Longrightarrow> withdraw c xs (a, r) = spec_withdraw c xs (a, r)"
proof (induction xs arbitrary: a r)
  case Nil
  then show ?case by simp
next
  case (Cons x xs)
  have nn: "0 \<le> get_alloc a x"
    using Cons.prems(2) by (cases x) (simp_all add: non_negative_def)
  show ?case
  proof (cases "get_alloc a x \<le> 0")
    case True
    then have z: "get_alloc a x = 0" using nn by simp
    then have "min (get_alloc a x) r = 0" using Cons.prems(1) by simp
    then show ?thesis using Cons.IH [OF Cons.prems] z True
      by (simp add: Let_def set_get_alloc_same [of a x, simplified z])
  next
    case False
    let ?t = "min (get_alloc a x) r"
    let ?a = "set_alloc a x (get_alloc a x - ?t)"
    have r': "0 \<le> r - ?t" by simp
    have "\<And>e. 0 \<le> get_alloc ?a e"
    proof -
      fix e
      have "0 \<le> get_alloc a e" using Cons.prems(2) by (cases e) (simp_all add: non_negative_def)
      then show "0 \<le> get_alloc ?a e" by (simp add: get_set_alloc)
    qed
    from this [of Housing] this [of Food] this [of General] this [of Savings]
    have "non_negative ?a" unfolding non_negative_def get_alloc.simps by blast
    from Cons.IH [OF r' this] Cons.IH [OF Cons.prems] False
    show ?thesis by (simp add: Let_def)
  qed
qed

lemma non_negative_get: "non_negative a \<longleftrightarrow> (\<forall>e. 0 \<le> get_alloc a e)"
proof
  assume "non_negative a"
  then show "\<forall>e. 0 \<le> get_alloc a e"
    by (auto simp: non_negative_def intro: category.induct)
next
  assume h: "\<forall>e. 0 \<le> get_alloc a e"
  from h [rule_format, of Housing] h [rule_format, of Food]
       h [rule_format, of General] h [rule_format, of Savings]
  show "non_negative a" by (simp add: non_negative_def)
qed

lemma alloc_sum_get:
  "alloc_sum a = get_alloc a Housing + get_alloc a Food + get_alloc a General + get_alloc a Savings"
  by (simp add: alloc_sum_def)

lemma get_positive_part: "get_alloc (positive_part a) d = max 0 (get_alloc a d)"
  by (cases d) (simp_all add: positive_part_def)

lemma withdraw_spec_positive:
  assumes "0 \<le> r" and "\<And>d. get_alloc a' d = max 0 (get_alloc a d)"
  shows "snd (withdraw c xs (a, r)) = snd (spec_withdraw c xs (a', r))
     \<and> (\<forall>d. get_alloc (fst (spec_withdraw c xs (a', r))) d
              = max 0 (get_alloc (fst (withdraw c xs (a, r))) d))"
  using assms
proof (induction xs arbitrary: a a' r)
  case Nil
  then show ?case by simp
next
  case (Cons x xs)
  note rel = Cons.prems(2)
  show ?case
  proof (cases "x = c \<or> \<bar>r\<bar> < 0.001")
    case True
    then show ?thesis using Cons.IH [OF Cons.prems(1) rel] rel by auto
  next
    case False
    then have xc: "x \<noteq> c" and big: "\<not> \<bar>r\<bar> < 0.001" by simp_all
    show ?thesis
    proof (cases "get_alloc a x \<le> 0")
      case True
      then have z: "get_alloc a' x = 0" using rel [of x] by simp
      then have t: "min (get_alloc a' x) r = 0" using Cons.prems(1) by simp
      have same: "set_alloc a' x (get_alloc a' x - 0) = a'"
        using set_get_alloc_same [of a' x] by simp
      have l: "withdraw c (x # xs) (a, r) = withdraw c xs (a, r)"
        using xc big True by simp
      have s: "spec_withdraw c (x # xs) (a', r) = spec_withdraw c xs (a', r)"
        using xc big t same by (simp add: Let_def)
      show ?thesis unfolding l s by (rule Cons.IH [OF Cons.prems(1) rel])
    next
      case False
      then have eq: "get_alloc a' x = get_alloc a x" using rel [of x] by simp
      let ?t = "min (get_alloc a x) r"
      let ?a = "set_alloc a x (get_alloc a x - ?t)"
      let ?a' = "set_alloc a' x (get_alloc a x - ?t)"
      have r': "0 \<le> r - ?t" by simp
      have rel': "\<And>d. get_alloc ?a' d = max 0 (get_alloc ?a d)"
        using rel False by (simp add: get_set_alloc)
      have l: "withdraw c (x # xs) (a, r) = withdraw c xs (?a, r - ?t)"
        using xc big False by (simp add: Let_def)
      have s: "spec_withdraw c (x # xs) (a', r) = spec_withdraw c xs (?a', r - ?t)"
        using xc big eq by (simp add: Let_def)
      show ?thesis unfolding l s by (rule Cons.IH [OF r' rel'])
    qed
  qed
qed

lemma withdraw_earlier_emptied:
  "0 \<le> r \<Longrightarrow> z \<notin> set pre
   \<Longrightarrow> get_alloc (fst (withdraw c (pre @ z # post) (a, r))) z < get_alloc a z
   \<Longrightarrow> \<forall>d\<in>set pre. d \<noteq> c \<longrightarrow> get_alloc (fst (withdraw c (pre @ z # post) (a, r))) d \<le> 0"
proof (induction pre arbitrary: a r)
  case Nil
  then show ?case by simp
next
  case (Cons x pre)
  let ?rest = "pre @ z # post"
  have zx: "z \<noteq> x" and zpre: "z \<notin> set pre" using Cons.prems(2) by auto
  show ?case
  proof (cases "x = c")
    case True
    then have eq: "withdraw c ((x # pre) @ z # post) (a, r) = withdraw c ?rest (a, r)" by simp
    from Cons.IH [OF Cons.prems(1) zpre] Cons.prems(3) True show ?thesis
      unfolding eq by simp
  next
    case xc: False
    show ?thesis
    proof (cases "\<bar>r\<bar> < 0.001")
      case True
      then have "withdraw c ((x # pre) @ z # post) (a, r) = (a, r)" using xc by simp
      then show ?thesis using Cons.prems(3) by simp
    next
      case big: False
      show ?thesis
      proof (cases "get_alloc a x \<le> 0")
        case True
        have eq: "withdraw c ((x # pre) @ z # post) (a, r) = withdraw c ?rest (a, r)"
          using xc big True by simp
        have "get_alloc (fst (withdraw c ?rest (a, r))) x \<le> 0"
          using withdraw_le [OF Cons.prems(1), of c ?rest a x] True by simp
        with Cons.IH [OF Cons.prems(1) zpre] Cons.prems(3) show ?thesis
          unfolding eq by simp
      next
        case pos: False
        let ?t = "min (get_alloc a x) r"
        let ?a = "set_alloc a x (get_alloc a x - ?t)"
        have eq: "withdraw c ((x # pre) @ z # post) (a, r) = withdraw c ?rest (?a, r - ?t)"
          using xc big pos by (simp add: Let_def)
        have r': "0 \<le> r - ?t" by simp
        have az: "get_alloc ?a z = get_alloc a z" using zx by (simp add: get_set_alloc)
        show ?thesis
        proof (cases "get_alloc a x < r")
          case True
          then have "get_alloc ?a x = 0" by (simp add: get_set_alloc)
          then have "get_alloc (fst (withdraw c ?rest (?a, r - ?t))) x \<le> 0"
            using withdraw_le [OF r', of c ?rest ?a x] by simp
          with Cons.IH [OF r' zpre] Cons.prems(3) az show ?thesis
            unfolding eq by simp
        next
          case False
          then have "r - ?t = 0" by simp
          then have "withdraw c ?rest (?a, r - ?t) = (?a, 0)"
            using withdraw_small [of 0 c ?rest ?a] by simp
          then show ?thesis using Cons.prems(3) az unfolding eq by simp
        qed
      qed
    qed
  qed
qed

lemma updateAllocation_increase:
  assumes "0 < netMonthlyIncome bd"
    and "safeVal = max 0 (min newVal (netMonthlyIncome bd))"
    and "delta = safeVal - get_alloc (allocations bd) edited"
    and "0.001 \<le> delta"
  shows "updateAllocation (Some bd) edited newVal
         = Some (bd\<lparr>allocations := sanity_check (netMonthlyIncome bd)
              (fst (withdraw edited withdrawalOrder
                 (set_alloc (allocations bd) edited safeVal, delta)))\<rparr>)"
  using assms unfolding updateAllocation_def Let_def by simp

lemma updateAllocation_small:
  assumes "safeVal = max 0 (min newVal (netMonthlyIncome bd))"
    and "delta = safeVal - get_alloc (allocations bd) edited"
    and "\<bar>delta\<bar> < 0.001"
  shows "updateAllocation (Some bd) edited newVal = Some bd"
  using assms unfolding updateAllocation_def Let_def by simp

text \<open>
  C3, as the code has it. When an edit raises a category, the loop of \<open>updateAllocation\<close>
  is the withdrawal of the specification applied to the positive parts of the balances:
  donors in the order savings, general, food, housing, the edited category skipped,
  \<open>min donorBalance remainingDelta\<close> taken from each, ending when the remaining delta is
  within 0.001 of zero or the donors are used up; a donor whose balance is not positive is
  skipped and keeps its balance. On an allocation without negative amounts this is the
  withdrawal of the specification itself. Housing is lowered only when savings, general
  and food (the edited category apart) are left with nothing positive.
\<close>

theorem withdrawal_follows_priority:
  assumes "0 < delta"
    and "w = withdraw edited withdrawalOrder (a, delta)"
    and "s = spec_withdraw edited [Savings, General, Food, Housing] (positive_part a, delta)"
  shows "snd w = snd s
    \<and> (\<forall>d. get_alloc (fst w) d
            = (if get_alloc a d \<le> 0 then get_alloc a d else get_alloc (fst s) d))
    \<and> (non_negative a \<longrightarrow>
          w = spec_withdraw edited [Savings, General, Food, Housing] (a, delta))
    \<and> (housing (fst w) < housing a
         \<longrightarrow> (\<forall>d\<in>{Savings, General, Food} - {edited}. get_alloc (fst w) d \<le> 0))"
proof -
  have d0: "0 \<le> delta" using assms(1) by simp
  note ws = withdraw_spec_positive [OF d0 get_positive_part, where a = a and c = edited
      and xs = withdrawalOrder]
  have one: "snd w = snd s"
    using ws unfolding assms(2,3) withdrawalOrder_def by blast
  have two: "\<forall>d. get_alloc (fst w) d
            = (if get_alloc a d \<le> 0 then get_alloc a d else get_alloc (fst s) d)"
  proof
    fix d
    have le: "get_alloc (fst w) d \<le> get_alloc a d"
      unfolding assms(2) by (rule withdraw_le [OF d0])
    have ge: "min 0 (get_alloc a d) \<le> get_alloc (fst w) d"
      unfolding assms(2) by (rule withdraw_ge [OF d0])
    have sp: "get_alloc (fst s) d = max 0 (get_alloc (fst w) d)"
      using ws unfolding assms(2,3) withdrawalOrder_def by blast
    show "get_alloc (fst w) d
            = (if get_alloc a d \<le> 0 then get_alloc a d else get_alloc (fst s) d)"
      using le ge sp by auto
  qed
  have three: "non_negative a \<longrightarrow>
          w = spec_withdraw edited [Savings, General, Food, Housing] (a, delta)"
    unfolding assms(2) withdrawalOrder_def using withdraw_refines_spec [OF d0] by blast
  have four: "housing (fst w) < housing a
         \<longrightarrow> (\<forall>d\<in>{Savings, General, Food} - {edited}. get_alloc (fst w) d \<le> 0)"
  proof
    assume "housing (fst w) < housing a"
    then have lt: "get_alloc (fst w) Housing < get_alloc a Housing" by simp
    have notin: "Housing \<notin> set [Savings, General, Food]" by simp
    have "\<forall>d\<in>set [Savings, General, Food]. d \<noteq> edited \<longrightarrow> get_alloc (fst w) d \<le> 0"
      using withdraw_earlier_emptied [OF d0 notin, of edited "[]"] lt
      unfolding assms(2) withdrawalOrder_def by (simp del: withdraw.simps)
    then show "\<forall>d\<in>{Savings, General, Food} - {edited}. get_alloc (fst w) d \<le> 0"
      by auto
  qed
  from one two three four show ?thesis by blast
qed

theorem withdrawal_follows_priority_witness:
  "(0::real) < 10
   \<and> snd (withdraw General withdrawalOrder
          (\<lparr>housing = 60.0007, food = 40.0007, general = 10, savings = - 0.0014\<rparr>, 10))
      = snd (spec_withdraw General [Savings, General, Food, Housing]
          (positive_part
             \<lparr>housing = 60.0007, food = 40.0007, general = 10, savings = - 0.0014\<rparr>, 10))
   \<and> savings (fst (withdraw General withdrawalOrder
          (\<lparr>housing = 60.0007, food = 40.0007, general = 10, savings = - 0.0014\<rparr>, 10)))
      = - 0.0014
   \<and> food (fst (withdraw General withdrawalOrder
          (\<lparr>housing = 60.0007, food = 40.0007, general = 10, savings = - 0.0014\<rparr>, 10)))
      = food (fst (spec_withdraw General [Savings, General, Food, Housing]
          (positive_part
             \<lparr>housing = 60.0007, food = 40.0007, general = 10, savings = - 0.0014\<rparr>, 10)))"
proof -
  let ?a = "\<lparr>housing = 60.0007, food = 40.0007, general = 10, savings = - 0.0014\<rparr>"
  let ?w = "withdraw General withdrawalOrder (?a, 10)"
  let ?s = "spec_withdraw General [Savings, General, Food, Housing] (positive_part ?a, 10)"
  have h: "(0::real) < 10" by simp
  note t = withdrawal_follows_priority [OF h refl refl, where edited = General and a = ?a]
  from t have r: "snd ?w = snd ?s" by blast
  from t have "get_alloc (fst ?w) Savings
      = (if get_alloc ?a Savings \<le> 0 then get_alloc ?a Savings else get_alloc (fst ?s) Savings)"
    by blast
  then have s: "savings (fst ?w) = - 0.0014"
    by (simp del: withdraw.simps spec_withdraw.simps)
  from t have "get_alloc (fst ?w) Food
      = (if get_alloc ?a Food \<le> 0 then get_alloc ?a Food else get_alloc (fst ?s) Food)"
    by blast
  then have f: "food (fst ?w) = food (fst ?s)"
    by (simp del: withdraw.simps spec_withdraw.simps)
  from h r s f show ?thesis by blast
qed

text \<open>
  C3, as it is stated, fails on an allocation with a negative amount, which the edits of
  the counterexample to C1 reach: savings is -0.0014 after them. Raising general to 10 then
  takes 10 from food, savings being skipped; taking \<open>min donorBalance remainingDelta\<close> from
  savings first, as the claim words it, would set savings to 0 and take 10.0014 from food.
\<close>

theorem withdrawal_skips_negative_donor:
  "withdraw General withdrawalOrder
     (\<lparr>housing = 60.0007, food = 40.0007, general = 10, savings = - 0.0014\<rparr>, 10)
   = (\<lparr>housing = 60.0007, food = 30.0007, general = 10, savings = - 0.0014\<rparr>, 0)
   \<and> spec_withdraw General [Savings, General, Food, Housing]
     (\<lparr>housing = 60.0007, food = 40.0007, general = 10, savings = - 0.0014\<rparr>, 10)
   = (\<lparr>housing = 60.0007, food = 29.9993, general = 10, savings = 0\<rparr>, 0)
   \<and> updateAllocations
        (Some \<lparr>netMonthlyIncome = 100,
               taxes = \<lparr>federal = 0, state = 0, fica = 0, total_tax = 0\<rparr>,
               allocations = \<lparr>housing = 50, food = 0, general = 40, savings = 10\<rparr>\<rparr>)
        [(Housing, 60.0007), (Food, 40.0007), (General, 10)]
      = Some \<lparr>netMonthlyIncome = 100,
              taxes = \<lparr>federal = 0, state = 0, fica = 0, total_tax = 0\<rparr>,
              allocations =
                \<lparr>housing = 60.0007, food = 30.0007, general = 10, savings = - 0.0014\<rparr>\<rparr>"
proof -
  have a: "withdraw General withdrawalOrder
     (\<lparr>housing = 60.0007, food = 40.0007, general = 10, savings = - 0.0014\<rparr>, 10)
   = (\<lparr>housing = 60.0007, food = 30.0007, general = 10, savings = - 0.0014\<rparr>, 0)"
    by (simp add: withdrawalOrder_def)
  have b: "spec_withdraw General [Savings, General, Food, Housing]
     (\<lparr>housing = 60.0007, food = 40.0007, general = 10, savings = - 0.0014\<rparr>, 10)
   = (\<lparr>housing = 60.0007, food = 29.9993, general = 10, savings = 0\<rparr>, 0)"
    by simp
  have c: "updateAllocations
        (Some \<lparr>netMonthlyIncome = 100,
               taxes = \<lparr>federal = 0, state = 0, fica = 0, total_tax = 0\<rparr>,
               allocations = \<lparr>housing = 50, food = 0, general = 40, savings = 10\<rparr>\<rparr>)
        [(Housing, 60.0007), (Food, 40.0007), (General, 10)]
      = Some \<lparr>netMonthlyIncome = 100,
              taxes = \<lparr>federal = 0, state = 0, fica = 0, total_tax = 0\<rparr>,
              allocations =
                \<lparr>housing = 60.0007, food = 30.0007, general = 10, savings = - 0.0014\<rparr>\<rparr>"
    unfolding updateAllocations.simps updateAllocation_def Let_def
    by (simp add: withdrawalOrder_def depositOrder_def sanity_check_def alloc_sum_def)
  from a b c show ?thesis by blast
qed

section \<open>Rebalancing: conservation\<close>

lemma tol_arith:
  assumes "(r::real) < 0.001" and "\<bar>s - T\<bar> \<le> 0.001"
  shows "- 0.002 \<le> T - (s + r)"
proof -
  have "s - T \<le> 0.001" by (rule order_trans [OF abs_ge_self assms(2)])
  then show ?thesis using assms(1) by simp
qed

lemma tol_arith2:
  "min 0 (s::real) - 0.002 \<le> s1 \<Longrightarrow> - 0.002 * real k \<le> s \<Longrightarrow> - 0.002 * real (Suc k) \<le> s1"
  by (simp add: algebra_simps add_divide_distrib min_def split: if_splits)

lemma sanity_check_conserved: "conserved T (sanity_check T a)"
proof (cases "\<bar>T - alloc_sum a\<bar> > 0.001")
  case True
  then have "sanity_check T a = a\<lparr>savings := savings a + (T - alloc_sum a)\<rparr>"
    by (simp add: sanity_check_def Let_def)
  then show ?thesis by (simp add: conserved_def alloc_sum_def)
next
  case False
  then have "sanity_check T a = a" by (simp add: sanity_check_def Let_def)
  moreover have "\<bar>alloc_sum a - T\<bar> \<le> 0.001" using False by linarith
  ultimately show ?thesis by (simp add: conserved_def)
qed

lemma sanity_check_others:
  "housing (sanity_check T a) = housing a" "food (sanity_check T a) = food a"
  "general (sanity_check T a) = general a"
  by (simp_all add: sanity_check_def Let_def)

lemma sanity_check_savings:
  "- 0.002 \<le> T - alloc_sum a \<Longrightarrow> savings a - 0.002 \<le> savings (sanity_check T a)"
  by (simp add: sanity_check_def Let_def)

lemma sanity_check_id:
  assumes "conserved T a"
  shows "sanity_check T a = a"
proof -
  have "\<not> \<bar>T - alloc_sum a\<bar> > 0.001"
    using assms unfolding conserved_def by linarith
  then show ?thesis by (simp add: sanity_check_def Let_def)
qed

lemma deposit_cases:
  "deposit c depositOrder a m
    = (if c = Savings then a\<lparr>general := general a + m\<rparr> else a\<lparr>savings := savings a + m\<rparr>)"
  by (cases c) (simp_all add: depositOrder_def)

lemma updateAllocation_decrease:
  assumes "0 < netMonthlyIncome bd"
    and "safeVal = max 0 (min newVal (netMonthlyIncome bd))"
    and "delta = safeVal - get_alloc (allocations bd) edited"
    and "delta \<le> - 0.001"
  shows "updateAllocation (Some bd) edited newVal
         = Some (bd\<lparr>allocations := sanity_check (netMonthlyIncome bd)
              (deposit edited depositOrder (set_alloc (allocations bd) edited safeVal) (- delta))\<rparr>)"
proof -
  have a: "\<bar>delta\<bar> = - delta" "\<not> \<bar>delta\<bar> < 0.001" "\<not> 0 < delta"
    using assms(4) by simp_all
  show ?thesis
    using assms(1) a unfolding assms(2,3) updateAllocation_def Let_def by simp
qed

lemma increase_step:
  assumes wb: "within_budget T a" and T: "0 < T"
    and sv: "safeVal = max 0 (min newVal T)"
    and dl: "delta = safeVal - get_alloc a c" and big: "0.001 \<le> delta"
    and b: "b = sanity_check T (fst (withdraw c withdrawalOrder (set_alloc a c safeVal, delta)))"
  shows "within_budget T b \<and> min 0 (savings a) - 0.002 \<le> savings b"
proof -
  let ?a1 = "set_alloc a c safeVal"
  let ?w = "withdraw c withdrawalOrder (?a1, delta)"
  have d0: "0 \<le> delta" using big by simp
  have sv0: "0 \<le> safeVal" and svT: "safeVal \<le> T" using sv T by simp_all
  have a1: "min 0 (get_alloc a e) \<le> get_alloc ?a1 e" for e
    using sv0 by (auto simp: get_set_alloc min_def)
  have w_ge: "min 0 (get_alloc a e) \<le> get_alloc (fst ?w) e" for e
    using withdraw_ge [OF d0, of ?a1 e c withdrawalOrder] a1 [of e] by linarith
  have h: "0 \<le> housing (fst ?w)" using w_ge [of Housing] wb by (simp add: within_budget_def)
  have f: "0 \<le> food (fst ?w)" using w_ge [of Food] wb by (simp add: within_budget_def)
  have g: "0 \<le> general (fst ?w)" using w_ge [of General] wb by (simp add: within_budget_def)
  have s: "min 0 (savings a) \<le> savings (fst ?w)" using w_ge [of Savings] by simp
  have sum1: "alloc_sum ?a1 = alloc_sum a + delta" by (simp add: alloc_sum_set dl)
  have sumw: "alloc_sum (fst ?w) = alloc_sum a + snd ?w"
    using withdraw_sum [of c withdrawalOrder ?a1 delta] sum1 by simp
  have close: "\<bar>alloc_sum a - T\<bar> \<le> 0.001" using wb by (simp add: within_budget_def conserved_def)
  have err: "- 0.002 \<le> T - alloc_sum (fst ?w)"
  proof -
    from withdraw_drained [OF d0, of c withdrawalOrder ?a1]
    consider "snd ?w < 0.001"
      | "\<forall>d\<in>set withdrawalOrder. d \<noteq> c \<longrightarrow> get_alloc (fst ?w) d \<le> 0" by blast
    then show ?thesis
    proof cases
      case 1
      then show ?thesis using tol_arith [OF _ close] sumw by simp
    next
      case 2
      have self: "get_alloc (fst ?w) c = safeVal"
        by (simp add: withdraw_self get_set_alloc)
      have others: "d \<noteq> c \<Longrightarrow> get_alloc (fst ?w) d \<le> 0" for d
        using 2 by (cases d) (simp_all add: withdrawalOrder_def)
      have "alloc_sum (fst ?w) \<le> safeVal"
        using self others [of Housing] others [of Food] others [of General] others [of Savings]
        unfolding alloc_sum_get by (cases c) simp_all
      then show ?thesis using svT by simp
    qed
  qed
  have "within_budget T b"
    unfolding within_budget_def b using h f g
    by (simp add: sanity_check_others sanity_check_conserved)
  moreover have "min 0 (savings a) - 0.002 \<le> savings b"
    using sanity_check_savings [OF err] s unfolding b by linarith
  ultimately show ?thesis by blast
qed

lemma decrease_step:
  assumes wb: "within_budget T a" and T: "0 < T"
    and sv: "safeVal = max 0 (min newVal T)"
    and dl: "delta = safeVal - get_alloc a c" and big: "delta \<le> - 0.001"
    and b: "b = sanity_check T (deposit c depositOrder (set_alloc a c safeVal) (- delta))"
  shows "within_budget T b \<and> min 0 (savings a) \<le> savings b"
proof -
  let ?d = "deposit c depositOrder (set_alloc a c safeVal) (- delta)"
  have sv0: "0 \<le> safeVal" using sv by simp
  have sum: "alloc_sum ?d = alloc_sum a"
    unfolding deposit_cases using dl by (cases c) (simp_all add: alloc_sum_def)
  have cons: "conserved T ?d" using wb sum by (simp add: within_budget_def conserved_def)
  have bd: "b = ?d" unfolding b by (rule sanity_check_id [OF cons])
  have "0 \<le> housing ?d \<and> 0 \<le> food ?d \<and> 0 \<le> general ?d \<and> min 0 (savings a) \<le> savings ?d"
    unfolding deposit_cases using wb sv0 big by (cases c) (simp_all add: within_budget_def)
  then show ?thesis using cons unfolding bd within_budget_def by simp
qed

lemma updateAllocation_step:
  assumes wb: "within_budget (netMonthlyIncome bd) (allocations bd)"
  shows "\<exists>bd'. updateAllocation (Some bd) c v = Some bd'
      \<and> netMonthlyIncome bd' = netMonthlyIncome bd
      \<and> within_budget (netMonthlyIncome bd') (allocations bd')
      \<and> min 0 (savings (allocations bd)) - 0.002 \<le> savings (allocations bd')"
proof -
  let ?T = "netMonthlyIncome bd"
  let ?sv = "max 0 (min v ?T)"
  let ?dl = "?sv - get_alloc (allocations bd) c"
  have same: "updateAllocation (Some bd) c v = Some bd \<Longrightarrow> ?thesis"
    using wb by simp
  show ?thesis
  proof (cases "?T \<le> 0")
    case True
    then have "updateAllocation (Some bd) c v = Some bd" by (simp add: updateAllocation_def)
    then show ?thesis by (rule same)
  next
    case False
    then have T: "0 < ?T" by simp
    consider "\<bar>?dl\<bar> < 0.001" | "0.001 \<le> ?dl" | "?dl \<le> - 0.001" by linarith
    then show ?thesis
    proof cases
      case 1
      from updateAllocation_small [OF refl refl 1] show ?thesis by (rule same)
    next
      case 2
      from increase_step [OF wb T refl refl 2 refl] updateAllocation_increase [OF T refl refl 2]
      show ?thesis by simp
    next
      case 3
      from decrease_step [OF wb T refl refl 3 refl] updateAllocation_decrease [OF T refl refl 3]
      show ?thesis by simp
    qed
  qed
qed

lemma updateAllocations_invariant:
  "within_budget (netMonthlyIncome bd) (allocations bd)
   \<Longrightarrow> - 0.002 * real k \<le> savings (allocations bd)
   \<Longrightarrow> \<exists>bd'. updateAllocations (Some bd) edits = Some bd'
      \<and> netMonthlyIncome bd' = netMonthlyIncome bd
      \<and> within_budget (netMonthlyIncome bd') (allocations bd')
      \<and> - 0.002 * real (k + length edits) \<le> savings (allocations bd')"
proof (induction edits arbitrary: bd k)
  case Nil
  then show ?case by simp
next
  case (Cons e edits)
  obtain c v where e: "e = (c, v)" by (cases e)
  from updateAllocation_step [OF Cons.prems(1), of c v]
  obtain bd1 where s1: "updateAllocation (Some bd) c v = Some bd1"
    and n1: "netMonthlyIncome bd1 = netMonthlyIncome bd"
    and w1: "within_budget (netMonthlyIncome bd1) (allocations bd1)"
    and v1: "min 0 (savings (allocations bd)) - 0.002 \<le> savings (allocations bd1)"
    by blast
  have "- 0.002 * real (Suc k) \<le> savings (allocations bd1)"
    by (rule tol_arith2 [OF v1 Cons.prems(2)])
  from Cons.IH [OF w1 this] n1 s1 e show ?case by simp
qed

text \<open>
  C1, as the code has it. From an allocation whose four amounts are non-negative and sum
  to the budget within 0.001, every sequence of edits leaves the budget itself unchanged
  and an allocation that again sums to it within 0.001, with housing, food and general
  non-negative. Savings is not kept non-negative: the final check can push it below zero,
  by less than 0.002 in each call.
\<close>

theorem rebalance_conserves_budget:
  assumes "non_negative (allocations bd)"
    and "conserved (netMonthlyIncome bd) (allocations bd)"
  shows "\<exists>bd'. updateAllocations (Some bd) edits = Some bd'
      \<and> netMonthlyIncome bd' = netMonthlyIncome bd
      \<and> conserved (netMonthlyIncome bd) (allocations bd')
      \<and> 0 \<le> housing (allocations bd') \<and> 0 \<le> food (allocations bd')
      \<and> 0 \<le> general (allocations bd')
      \<and> - 0.002 * real (length edits) \<le> savings (allocations bd')"
proof -
  have wb: "within_budget (netMonthlyIncome bd) (allocations bd)"
    using assms by (simp add: within_budget_def non_negative_def)
  have s0: "- 0.002 * real (0::nat) \<le> savings (allocations bd)"
    using assms(1) by (simp add: non_negative_def)
  from updateAllocations_invariant [OF wb s0, of edits]
  show ?thesis by (auto simp: within_budget_def)
qed

theorem rebalance_conserves_budget_witness:
  "non_negative \<lparr>housing = 50, food = 0, general = 40, savings = 10\<rparr>
   \<and> conserved 100 \<lparr>housing = 50, food = 0, general = 40, savings = 10\<rparr>
   \<and> (\<exists>bd'. updateAllocations
          (Some \<lparr>netMonthlyIncome = 100,
                 taxes = \<lparr>federal = 0, state = 0, fica = 0, total_tax = 0\<rparr>,
                 allocations = \<lparr>housing = 50, food = 0, general = 40, savings = 10\<rparr>\<rparr>)
          [(Housing, 60.0007), (Food, 40.0007)] = Some bd'
      \<and> netMonthlyIncome bd' = 100
      \<and> conserved 100 (allocations bd')
      \<and> 0 \<le> housing (allocations bd') \<and> 0 \<le> food (allocations bd')
      \<and> 0 \<le> general (allocations bd')
      \<and> - 0.004 \<le> savings (allocations bd'))"
proof -
  let ?bd = "\<lparr>netMonthlyIncome = 100,
             taxes = \<lparr>federal = 0, state = 0, fica = 0, total_tax = 0\<rparr>,
             allocations = \<lparr>housing = 50, food = 0, general = 40, savings = 10\<rparr>\<rparr>"
  have h1: "non_negative (allocations ?bd)" by (simp add: non_negative_def)
  have h2: "conserved (netMonthlyIncome ?bd) (allocations ?bd)"
    by (simp add: conserved_def alloc_sum_def)
  from rebalance_conserves_budget [OF h1 h2, of "[(Housing, 60.0007), (Food, 40.0007)]"]
  show ?thesis using h1 h2 by (simp del: updateAllocations.simps)
qed

text \<open>
  C1, as it is stated, fails. The budget is 100 and the allocation is housing 50, food 0,
  general 40, savings 10, which sums to 100. Raising housing to 60.0007 empties savings
  and stops with 0.0007 still to find; raising food to 40.0007 then empties general and
  stops in the same way. The sum is now 100.0014, and the final check takes the excess
  from savings, which becomes -0.0014.
\<close>

theorem rebalance_negative_savings:
  "non_negative \<lparr>housing = 50, food = 0, general = 40, savings = 10\<rparr>
   \<and> conserved 100 \<lparr>housing = 50, food = 0, general = 40, savings = 10\<rparr>
   \<and> updateAllocations
        (Some \<lparr>netMonthlyIncome = 100,
               taxes = \<lparr>federal = 0, state = 0, fica = 0, total_tax = 0\<rparr>,
               allocations = \<lparr>housing = 50, food = 0, general = 40, savings = 10\<rparr>\<rparr>)
        [(Housing, 60.0007), (Food, 40.0007)]
      = Some \<lparr>netMonthlyIncome = 100,
              taxes = \<lparr>federal = 0, state = 0, fica = 0, total_tax = 0\<rparr>,
              allocations =
                \<lparr>housing = 60.0007, food = 40.0007, general = 0, savings = - 0.0014\<rparr>\<rparr>
   \<and> \<not> non_negative \<lparr>housing = 60.0007, food = 40.0007, general = 0, savings = - 0.0014\<rparr>"
proof -
  have "updateAllocations
        (Some \<lparr>netMonthlyIncome = 100,
               taxes = \<lparr>federal = 0, state = 0, fica = 0, total_tax = 0\<rparr>,
               allocations = \<lparr>housing = 50, food = 0, general = 40, savings = 10\<rparr>\<rparr>)
        [(Housing, 60.0007), (Food, 40.0007)]
      = Some \<lparr>netMonthlyIncome = 100,
              taxes = \<lparr>federal = 0, state = 0, fica = 0, total_tax = 0\<rparr>,
              allocations =
                \<lparr>housing = 60.0007, food = 40.0007, general = 0, savings = - 0.0014\<rparr>\<rparr>"
    unfolding updateAllocations.simps updateAllocation_def Let_def
    by (simp add: withdrawalOrder_def depositOrder_def sanity_check_def alloc_sum_def)
  then show ?thesis
    by (simp add: non_negative_def conserved_def alloc_sum_def)
qed

section \<open>Binary64 numbers: evaluation\<close>

lemma halvings_numeral:
  "halvings (numeral k) x = (if x < 2 then 0 else 1 + halvings (pred_numeral k) (x / 2))"
  by (simp add: numeral_eq_Suc)

lemma doublings_numeral:
  "doublings (numeral k) x = (if 1 \<le> x then 0 else doublings (pred_numeral k) (2 * x) - 1)"
  by (simp add: numeral_eq_Suc)

lemma doublings_0: "doublings n 0 = - int n"
  by (induction n) simp_all

lemma nearest64_0: "nearest64 0 = 0"
  by (simp add: nearest64_def round_half_even_def)

lemma to_double_0: "to_double 0 = Finite 0"
  by (simp add: to_double_def nearest64_0 pow2_def)

lemmas b64_eval = exponent64_def pow2_def round_half_even_def nearest64_def to_double_def Let_def
  halvings_numeral doublings_numeral jsub_def

section \<open>Growth projection: theorems\<close>

lemma growth_loop_points:
  "growth_loop mI mB rI rB todo y (spec_balance mI rI y, spec_balance mB rB y) res
   = res @ map (spec_point mI mB rI rB) [y..<y + todo]"
proof (induction todo arbitrary: y res)
  case 0
  then show ?case by simp
next
  case (Suc todo)
  have "growth_loop mI mB rI rB (Suc todo) y (spec_balance mI rI y, spec_balance mB rB y) res
    = growth_loop mI mB rI rB todo (Suc y)
        (spec_balance mI rI (Suc y), spec_balance mB rB (Suc y))
        (res @ [spec_point mI mB rI rB y])"
    by (simp add: spec_point_def)
  also have "\<dots> = (res @ [spec_point mI mB rI rB y])
       @ map (spec_point mI mB rI rB) [Suc y..<Suc y + todo]"
    by (rule Suc.IH)
  also have "\<dots> = res @ map (spec_point mI mB rI rB) [y..<y + Suc todo]"
  proof -
    have "[y..<y + Suc todo] = y # [Suc y..<Suc y + todo]"
      by (subst upt_rec) simp
    then show ?thesis by simp
  qed
  finally show ?case .
qed

lemma investmentData_points:
  "investmentData mc ratio ip bp
   = map (spec_point (jmul mc ratio) (jmul mc (jsub (Finite 1) ratio))
            (jdiv ip (Finite 100)) (jdiv bp (Finite 100))) [0..<31]"
  using growth_loop_points [of "jmul mc ratio" "jmul mc (jsub (Finite 1) ratio)"
      "jdiv ip (Finite 100)" "jdiv bp (Finite 100)" 31 0 "[]"]
  unfolding investmentData_def Let_def by (simp del: growth_loop.simps upt_Suc)

lemma jround_zero: "jround (Finite 0) = Finite 0" "jround (jsub (Finite 0) (Finite 0)) = Finite 0"
  by (simp_all add: jsub_def to_double_0)

lemma investmentData_nth:
  "k \<le> 30 \<Longrightarrow> investmentData mc ratio ip bp ! k
     = spec_point (jmul mc ratio) (jmul mc (jsub (Finite 1) ratio))
         (jdiv ip (Finite 100)) (jdiv bp (Finite 100)) k"
  by (simp add: investmentData_points del: upt_Suc)

text \<open>
  C4, as the code has it. For every monthly contribution, split and pair of rates the
  series has exactly 31 points, for the years 0 to 30; the point of year 0 holds zeros;
  and the point of year \<open>k\<close> holds, rounded to the nearest integer by \<^verbatim>\<open>Math.round\<close>, the
  balances before the compounding of year \<open>k\<close>, where the balance of a track starts at 0 and
  goes from one year to the next by \<open>(balance + monthlyAmount * 12) * (1 + annualRate)\<close>,
  each operation rounded to binary64.
\<close>

theorem growth_series_points:
  "length (investmentData mc ratio ip bp) = 31
   \<and> investmentData mc ratio ip bp ! 0
       = \<lparr>year_g = 0, investAmount = Finite 0, bankAmount = Finite 0, difference = Finite 0\<rparr>
   \<and> (\<forall>k\<le>30. investmentData mc ratio ip bp ! k
        = \<lparr>year_g = k,
           investAmount =
             jround (spec_balance (jmul mc ratio) (jdiv ip (Finite 100)) k),
           bankAmount =
             jround (spec_balance (jmul mc (jsub (Finite 1) ratio)) (jdiv bp (Finite 100)) k),
           difference =
             jround (jsub (spec_balance (jmul mc ratio) (jdiv ip (Finite 100)) k)
                          (spec_balance (jmul mc (jsub (Finite 1) ratio))
                             (jdiv bp (Finite 100)) k))\<rparr>)"
  unfolding investmentData_points
  by (simp add: spec_point_def jround_zero del: upt_Suc)

theorem growth_series_points_witness:
  "(1::nat) \<le> 30
   \<and> investmentData (Finite 100) (Finite (1 / 4)) (Finite 0) (Finite (1 / 2)) ! 1
     = \<lparr>year_g = 1, investAmount = Finite 300, bankAmount = Finite 904,
        difference = Finite (- 604)\<rparr>"
proof -
  have h: "(1::nat) \<le> 30" by simp
  have v: "jround (spec_balance (jmul (Finite 100) (Finite (1 / 4)))
              (jdiv (Finite 0) (Finite 100)) 1) = Finite 300"
    "jround (spec_balance (jmul (Finite 100) (jsub (Finite 1) (Finite (1 / 4))))
              (jdiv (Finite (1 / 2)) (Finite 100)) 1) = Finite 904"
    "jround (jsub (spec_balance (jmul (Finite 100) (Finite (1 / 4)))
                     (jdiv (Finite 0) (Finite 100)) 1)
                  (spec_balance (jmul (Finite 100) (jsub (Finite 1) (Finite (1 / 4))))
                     (jdiv (Finite (1 / 2)) (Finite 100)) 1)) = Finite (- 604)"
    by (simp_all add: b64_eval)
  from growth_series_points [of "Finite 100" "Finite (1 / 4)" "Finite 0" "Finite (1 / 2)"] h
  have "investmentData (Finite 100) (Finite (1 / 4)) (Finite 0) (Finite (1 / 2)) ! 1
     = \<lparr>year_g = 1,
        investAmount = jround (spec_balance (jmul (Finite 100) (Finite (1 / 4)))
              (jdiv (Finite 0) (Finite 100)) 1),
        bankAmount = jround (spec_balance (jmul (Finite 100) (jsub (Finite 1) (Finite (1 / 4))))
              (jdiv (Finite (1 / 2)) (Finite 100)) 1),
        difference = jround (jsub (spec_balance (jmul (Finite 100) (Finite (1 / 4)))
                     (jdiv (Finite 0) (Finite 100)) 1)
                  (spec_balance (jmul (Finite 100) (jsub (Finite 1) (Finite (1 / 4))))
                     (jdiv (Finite (1 / 2)) (Finite 100)) 1))\<rparr>"
    by blast
  then show ?thesis unfolding v by simp
qed

text \<open>
  C4, as it is stated, fails: a recorded point does not hold the balance itself. With a
  contribution of 1 a month, half of it invested at 10 percent, the invested balance
  before the compounding of year 1 is 6.6000000000000005 (6.6 in exact arithmetic), and
  the point of year 1 records 7.
\<close>

theorem growth_point_is_rounded:
  "investAmount (investmentData (Finite 1) (Finite (1 / 2)) (Finite 10) (Finite 0) ! 1)
     = Finite 7
   \<and> spec_balance (jmul (Finite 1) (Finite (1 / 2))) (jdiv (Finite 10) (Finite 100)) 1
     = Finite (7430939385161319 / 2 ^ 50)
   \<and> (7430939385161319 / 2 ^ 50 :: real) \<noteq> 7"
  by (simp add: investmentData_nth spec_point_def b64_eval)

section \<open>Mortgage payoff: the loop\<close>

lemma record_point_fields:
  "b1 (record_point i s) = b1 s" "b2 (record_point i s) = b2 s"
  "totalInterest1 (record_point i s) = totalInterest1 s"
  "totalInterest2 (record_point i s) = totalInterest2 s"
  "months1 (record_point i s) = months1 s" "months2 (record_point i s) = months2 s"
  by (simp_all add: record_point_def)

lemma standard_step_fields:
  "b1 (standard_step r M s) = (if b1 s > 0 then b1 s - min (b1 s) (M - b1 s * r) else b1 s)"
  "b2 (standard_step r M s) = b2 s"
  "totalInterest1 (standard_step r M s)
     = (if b1 s > 0 then totalInterest1 s + b1 s * r else totalInterest1 s)"
  "totalInterest2 (standard_step r M s) = totalInterest2 s"
  "months1 (standard_step r M s) = (if b1 s > 0 then months1 s + 1 else months1 s)"
  "months2 (standard_step r M s) = months2 s"
  "data (standard_step r M s) = data s"
  by (simp_all add: standard_step_def Let_def)

lemma accelerated_step_fields:
  "b1 (accelerated_step r M E s) = b1 s"
  "b2 (accelerated_step r M E s) = (if b2 s > 0 then b2 s - min (b2 s) (M + E - b2 s * r) else b2 s)"
  "totalInterest1 (accelerated_step r M E s) = totalInterest1 s"
  "totalInterest2 (accelerated_step r M E s)
     = (if b2 s > 0 then totalInterest2 s + b2 s * r else totalInterest2 s)"
  "months1 (accelerated_step r M E s) = months1 s"
  "months2 (accelerated_step r M E s) = (if b2 s > 0 then months2 s + 1 else months2 s)"
  "data (accelerated_step r M E s) = data s"
  by (simp_all add: accelerated_step_def Let_def)

lemma loop_body_fields:
  "b1 (loop_body r M E i s) = (if b1 s > 0 then b1 s - min (b1 s) (M - b1 s * r) else b1 s)"
  "b2 (loop_body r M E i s) = (if b2 s > 0 then b2 s - min (b2 s) (M + E - b2 s * r) else b2 s)"
  "totalInterest1 (loop_body r M E i s)
     = (if b1 s > 0 then totalInterest1 s + b1 s * r else totalInterest1 s)"
  "totalInterest2 (loop_body r M E i s)
     = (if b2 s > 0 then totalInterest2 s + b2 s * r else totalInterest2 s)"
  "months1 (loop_body r M E i s) = (if b1 s > 0 then months1 s + 1 else months1 s)"
  "months2 (loop_body r M E i s) = (if b2 s > 0 then months2 s + 1 else months2 s)"
  "data (loop_body r M E i s) = data (record_point i s)"
  unfolding loop_body_def accelerated_step_fields standard_step_fields record_point_fields
  by simp_all

lemma loop_body_finished:
  assumes "b1 s \<le> 0" and "b2 s \<le> 0"
  shows "loop_body r M E i s = s"
proof -
  have "record_point i s = s" using assms by (simp add: record_point_def)
  moreover have "standard_step r M s = s" using assms by (simp add: standard_step_def)
  moreover have "accelerated_step r M E s = s" using assms by (simp add: accelerated_step_def)
  ultimately show ?thesis by (simp add: loop_body_def)
qed

lemma amort_loop_unfold:
  "amort_loop r M E (Suc k) i s =
     (if b1 (loop_body r M E i s) \<le> 0 \<and> b2 (loop_body r M E i s) \<le> 0
      then loop_body r M E i s
      else amort_loop r M E k (Suc i) (loop_body r M E i s))"
  by (simp add: Let_def)

lemma amort_loop_Suc:
  "amort_loop r M E (Suc n) i s = loop_body r M E (i + n) (amort_loop r M E n i s)"
proof (induction n arbitrary: i s)
  case 0
  show ?case unfolding amort_loop_unfold by (simp add: loop_body_finished)
next
  case (Suc n)
  let ?s = "loop_body r M E i s"
  show ?case
  proof (cases "b1 ?s \<le> 0 \<and> b2 ?s \<le> 0")
    case True
    have stop: "amort_loop r M E (Suc k) i s = ?s" for k
      unfolding amort_loop_unfold [of r M E k i s] by (rule if_P [OF True])
    have "loop_body r M E (i + Suc n) ?s = ?s"
      using True by (simp add: loop_body_finished)
    then show ?thesis unfolding stop by simp
  next
    case False
    have go: "amort_loop r M E (Suc k) i s = amort_loop r M E k (Suc i) ?s" for k
      unfolding amort_loop_unfold [of r M E k i s] by (rule if_not_P [OF False])
    show ?thesis unfolding go using Suc.IH [of "Suc i" ?s] by simp
  qed
qed

lemma sim_after_0: "sim_after B r M E 0 = initial_sim B"
  by (simp add: sim_after_def)

lemma sim_after_Suc: "sim_after B r M E (Suc n) = loop_body r M E n (sim_after B r M E n)"
  using amort_loop_Suc [of r M E n 0] by (simp add: sim_after_def del: amort_loop.simps)

lemma mortgageData_Some:
  assumes "0 < rate / 100 / 12" and "B * (rate / 100 / 12) < M"
  shows "mortgageData B rate M E =
     (let s = sim_after B (rate / 100 / 12) M E (maxMonths + 1)
      in Some \<lparr>interestSaved = js_round (totalInterest1 s - totalInterest2 s),
               timeSavedMonths = max 0 (int (months1 s) - int (months2 s)),
               totalInterestStandard = js_round (totalInterest1 s),
               payoffYearsStandard = toFixed1 (real (months1 s) / 12),
               payoffYearsAccelerated = toFixed1 (real (months2 s) / 12),
               chartData = data s\<rparr>)"
  using assms unfolding mortgageData_def sim_after_def Let_def
  by (simp del: amort_loop.simps)

lemma js_round_mono: "x \<le> y \<Longrightarrow> js_round x \<le> js_round y"
  by (simp add: js_round_def floor_mono)

lemma js_round_nonneg: "0 \<le> x \<Longrightarrow> 0 \<le> js_round x"
  by (simp add: js_round_def)

lemma toFixed1_mono: "x \<le> y \<Longrightarrow> toFixed1 x \<le> toFixed1 y"
  by (simp add: toFixed1_def floor_mono divide_right_mono)

section \<open>Mortgage payoff: the guard\<close>


text \<open>
  The rounding matters at the boundary: at 7.5 percent the computed rate is just below
  0.00625, the computed interest on 300000 just below 1875, and a payment of 1875 passes
  the guard.
\<close>

lemma payment_equal_to_interest_passes:
  "jdiv (jdiv (Finite 7.5) (Finite 100)) (Finite 12) = Finite (7205759403792793 / 2 ^ 60)
   \<and> jmul (Finite 300000) (Finite (7205759403792793 / 2 ^ 60))
       = Finite (8246337208319999 / 2 ^ 42)
   \<and> (8246337208319999 / 2 ^ 42 :: real) < 1875
   \<and> mortgageData64 (Finite 300000) (Finite 7.5) (Finite 1875) (Finite 0) \<noteq> None"
proof -
  have r: "jdiv (jdiv (Finite 7.5) (Finite 100)) (Finite 12) = Finite (7205759403792793 / 2 ^ 60)"
    by (simp add: b64_eval)
  have i: "jmul (Finite 300000) (Finite (7205759403792793 / 2 ^ 60))
       = Finite (8246337208319999 / 2 ^ 42)"
    by (simp add: b64_eval)
  have "mortgageData64 (Finite 300000) (Finite 7.5) (Finite 1875) (Finite 0) \<noteq> None"
    unfolding mortgageData64_def Let_def r i by (simp del: amort_loop64.simps)
  with r i show ?thesis by simp
qed

section \<open>Mortgage payoff: the accelerated schedule is never behind\<close>

lemma lockstep_step:
  fixes x y r M E I1 I2 :: real
  assumes "0 < r" and "0 \<le> E" and "y \<le> x" and "I2 \<le> I1"
  shows "(if y > 0 then y - min y (M + E - y * r) else y)
         \<le> (if x > 0 then x - min x (M - x * r) else x)
    \<and> (if y > 0 then I2 + y * r else I2) \<le> (if x > 0 then I1 + x * r else I1)"
proof (intro conjI)
  have p: "y * r \<le> x * r" using assms(1,3) by simp
  have q: "0 < x \<Longrightarrow> 0 \<le> x * r" using assms(1) by simp
  show "(if y > 0 then y - min y (M + E - y * r) else y)
         \<le> (if x > 0 then x - min x (M - x * r) else x)"
    using assms(2,3) p by (simp add: min_def)
  show "(if y > 0 then I2 + y * r else I2) \<le> (if x > 0 then I1 + x * r else I1)"
    using assms(3,4) p q by auto
qed

lemma lockstep_order:
  assumes "0 < r" and "0 \<le> E"
  shows "b2 (sim_after B r M E n) \<le> b1 (sim_after B r M E n)
     \<and> totalInterest2 (sim_after B r M E n) \<le> totalInterest1 (sim_after B r M E n)
     \<and> months2 (sim_after B r M E n) \<le> months1 (sim_after B r M E n)"
proof (induction n)
  case 0
  show ?case by (simp add: sim_after_0 initial_sim_def)
next
  case (Suc n)
  let ?s = "sim_after B r M E n"
  have le: "b2 ?s \<le> b1 ?s" and ile: "totalInterest2 ?s \<le> totalInterest1 ?s"
    and mle: "months2 ?s \<le> months1 ?s" using Suc by simp_all
  have "months2 (loop_body r M E n ?s) \<le> months1 (loop_body r M E n ?s)"
    unfolding loop_body_fields using le mle by auto
  with lockstep_step [OF assms le ile, of M]
  show ?case unfolding sim_after_Suc loop_body_fields by blast
qed

text \<open>
  C9. For a feasible input with a non-negative extra payment, after any number of
  iterations of the loop the accelerated balance is at most the standard one, the
  accelerated interest paid so far is at most the standard one, and the accelerated count
  of months is at most the standard one. Hence the result has a non-negative
  \<open>interestSaved\<close>, an accelerated payoff time that is at most the standard one, and a
  \<open>timeSavedMonths\<close> that is the difference of the two counts of months.
\<close>

theorem accelerated_never_behind:
  assumes "mortgageData loanBalance interestRate monthlyPayment extraPrincipal \<noteq> None"
    and "0 \<le> extraPrincipal"
  shows "(\<forall>n. b2 (sim_after loanBalance (interestRate / 100 / 12) monthlyPayment extraPrincipal n)
            \<le> b1 (sim_after loanBalance (interestRate / 100 / 12) monthlyPayment extraPrincipal n)
          \<and> totalInterest2
              (sim_after loanBalance (interestRate / 100 / 12) monthlyPayment extraPrincipal n)
            \<le> totalInterest1
              (sim_after loanBalance (interestRate / 100 / 12) monthlyPayment extraPrincipal n)
          \<and> months2
              (sim_after loanBalance (interestRate / 100 / 12) monthlyPayment extraPrincipal n)
            \<le> months1
              (sim_after loanBalance (interestRate / 100 / 12) monthlyPayment extraPrincipal n))
    \<and> (\<exists>res. mortgageData loanBalance interestRate monthlyPayment extraPrincipal = Some res
          \<and> 0 \<le> interestSaved res
          \<and> payoffYearsAccelerated res \<le> payoffYearsStandard res
          \<and> timeSavedMonths res
              = int (months1 (sim_after loanBalance (interestRate / 100 / 12) monthlyPayment
                     extraPrincipal (maxMonths + 1)))
                - int (months2 (sim_after loanBalance (interestRate / 100 / 12) monthlyPayment
                     extraPrincipal (maxMonths + 1))))"
proof -
  let ?r = "interestRate / 100 / 12"
  have feas: "0 < ?r" "loanBalance * ?r < monthlyPayment"
    using assms(1) unfolding mortgageData_def Let_def
    by (auto split: if_splits simp del: amort_loop.simps)
  note ord = lockstep_order [OF feas(1) assms(2), of loanBalance monthlyPayment]
  let ?s = "sim_after loanBalance ?r monthlyPayment extraPrincipal (maxMonths + 1)"
  have fin: "totalInterest2 ?s \<le> totalInterest1 ?s" "months2 ?s \<le> months1 ?s"
    using ord [of "maxMonths + 1"] by simp_all
  have i: "0 \<le> js_round (totalInterest1 ?s - totalInterest2 ?s)"
    using fin(1) by (simp add: js_round_nonneg)
  have y: "toFixed1 (real (months2 ?s) / 12) \<le> toFixed1 (real (months1 ?s) / 12)"
    using fin(2) by (simp add: toFixed1_mono)
  have t: "max 0 (int (months1 ?s) - int (months2 ?s)) = int (months1 ?s) - int (months2 ?s)"
    using fin(2) by simp
  show ?thesis
    using ord i y t unfolding mortgageData_Some [OF feas] Let_def by simp
qed

theorem accelerated_never_behind_witness:
  "mortgageData 300000 6.5 2500 500 \<noteq> None \<and> (0::real) \<le> 500
   \<and> b2 (sim_after 300000 (6.5 / 100 / 12) 2500 500 12)
       \<le> b1 (sim_after 300000 (6.5 / 100 / 12) 2500 500 12)
   \<and> (\<exists>res. mortgageData 300000 6.5 2500 500 = Some res
          \<and> 0 \<le> interestSaved res
          \<and> payoffYearsAccelerated res \<le> payoffYearsStandard res)"
proof -
  have h1: "mortgageData 300000 6.5 2500 500 \<noteq> None"
    unfolding mortgageData_def Let_def by (simp del: amort_loop.simps)
  have h2: "(0::real) \<le> 500" by simp
  from accelerated_never_behind [OF h1 h2] show ?thesis using h1 h2 by blast
qed

section \<open>Mortgage payoff: the chart\<close>

lemma data_record_point:
  "data (record_point i s)
   = data s @ (if i mod 12 = 0 \<and> (0 < b1 s \<or> 0 < b2 s) then [chart_point s i] else [])"
  by (simp add: record_point_def chart_point_def)

lemma data_sim_after:
  "data (sim_after B r M E n)
   = map (\<lambda>i. chart_point (sim_after B r M E i) i) (filter (recorded_at B r M E) [0..<n])"
proof (induction n)
  case 0
  show ?case by (simp add: sim_after_0 initial_sim_def)
next
  case (Suc n)
  have "data (sim_after B r M E (Suc n))
      = data (sim_after B r M E n)
        @ (if recorded_at B r M E n then [chart_point (sim_after B r M E n) n] else [])"
    by (simp add: sim_after_Suc loop_body_fields data_record_point recorded_at_def)
  then show ?case by (simp add: Suc.IH)
qed

lemma one_month_payoff:
  "sim_after 1000 (1 / 100) 2000 0 (maxMonths + 1)
   = \<lparr>b1 = 0, b2 = 0, totalInterest1 = 10, totalInterest2 = 10, months1 = 1, months2 = 1,
      data = [\<lparr>year = 0, balanceStandard = 1000, balanceAccelerated = 1000\<rparr>]\<rparr>"
proof -
  have body: "loop_body (1 / 100) 2000 0 0 (initial_sim 1000)
    = \<lparr>b1 = 0, b2 = 0, totalInterest1 = 10, totalInterest2 = 10, months1 = 1, months2 = 1,
      data = [\<lparr>year = 0, balanceStandard = 1000, balanceAccelerated = 1000\<rparr>]\<rparr>"
    by (simp add: loop_body_def record_point_def standard_step_def accelerated_step_def
        initial_sim_def js_round_def)
  have e: "maxMonths + 1 = Suc maxMonths" by simp
  show ?thesis
    unfolding sim_after_def e amort_loop_unfold body by simp
qed

text \<open>
  C8, as the code has it. For a feasible input, a point is pushed at iteration \<open>i\<close> exactly
  when \<open>i\<close> is a multiple of 12, at most 720, and one of the two balances before that
  iteration is still positive (for \<open>i > 0\<close> this is when the loop gets to iteration \<open>i\<close> at all,
  since it leaves as soon as both balances are paid). The point is labelled with the year
  \<open>i div 12\<close> and holds both balances rounded to the nearest integer and floored at 0. So
  the series has the point of month 0 when the balance is positive, and no point for a
  boundary at or after the month in which the second loan is paid.
\<close>

theorem chart_points_recorded:
  assumes "mortgageData B rate M E = Some res"
  shows "(\<forall>i\<le>maxMonths. i mod 12 = 0
            \<and> (0 < b1 (sim_after B (rate / 100 / 12) M E i)
                 \<or> 0 < b2 (sim_after B (rate / 100 / 12) M E i))
          \<longrightarrow> \<lparr>year = i div 12,
                balanceStandard = max 0 (js_round (b1 (sim_after B (rate / 100 / 12) M E i))),
                balanceAccelerated = max 0 (js_round (b2 (sim_after B (rate / 100 / 12) M E i)))\<rparr>
              \<in> set (chartData res))
    \<and> (\<forall>p\<in>set (chartData res). \<exists>i\<le>maxMonths. i mod 12 = 0
            \<and> (0 < b1 (sim_after B (rate / 100 / 12) M E i)
                 \<or> 0 < b2 (sim_after B (rate / 100 / 12) M E i))
            \<and> p = \<lparr>year = i div 12,
                balanceStandard = max 0 (js_round (b1 (sim_after B (rate / 100 / 12) M E i))),
                balanceAccelerated = max 0 (js_round (b2 (sim_after B (rate / 100 / 12) M E i)))\<rparr>)
    \<and> (0 < B \<longrightarrow> chartData res \<noteq> []
          \<and> hd (chartData res)
              = \<lparr>year = 0, balanceStandard = max 0 (js_round B),
                 balanceAccelerated = max 0 (js_round B)\<rparr>)"
proof -
  let ?r = "rate / 100 / 12"
  have feas: "0 < ?r" "B * ?r < M"
    using assms unfolding mortgageData_def Let_def
    by (auto split: if_splits simp del: amort_loop.simps)
  have cd: "chartData res = data (sim_after B ?r M E (maxMonths + 1))"
    using assms unfolding mortgageData_Some [OF feas] Let_def by auto
  have set_cd: "set (chartData res)
      = (\<lambda>i. chart_point (sim_after B ?r M E i) i) ` {i. i \<le> maxMonths \<and> recorded_at B ?r M E i}"
    unfolding cd data_sim_after set_map set_filter set_upt by auto
  have one: "\<forall>i\<le>maxMonths. i mod 12 = 0
            \<and> (0 < b1 (sim_after B ?r M E i) \<or> 0 < b2 (sim_after B ?r M E i))
          \<longrightarrow> \<lparr>year = i div 12,
                balanceStandard = max 0 (js_round (b1 (sim_after B ?r M E i))),
                balanceAccelerated = max 0 (js_round (b2 (sim_after B ?r M E i)))\<rparr>
              \<in> set (chartData res)"
    unfolding set_cd by (auto simp: recorded_at_def chart_point_def)
  have two: "\<forall>p\<in>set (chartData res). \<exists>i\<le>maxMonths. i mod 12 = 0
            \<and> (0 < b1 (sim_after B ?r M E i) \<or> 0 < b2 (sim_after B ?r M E i))
            \<and> p = \<lparr>year = i div 12,
                balanceStandard = max 0 (js_round (b1 (sim_after B ?r M E i))),
                balanceAccelerated = max 0 (js_round (b2 (sim_after B ?r M E i)))\<rparr>"
    unfolding set_cd by (auto simp: recorded_at_def chart_point_def)
  have three: "0 < B \<longrightarrow> chartData res \<noteq> []
          \<and> hd (chartData res)
              = \<lparr>year = 0, balanceStandard = max 0 (js_round B),
                 balanceAccelerated = max 0 (js_round B)\<rparr>"
  proof
    assume B: "0 < B"
    have "[0..<maxMonths + 1] = 0 # [1..<maxMonths + 1]"
      by (subst upt_rec) simp
    moreover have "recorded_at B ?r M E 0"
      using B by (simp add: recorded_at_def sim_after_0 initial_sim_def)
    ultimately show "chartData res \<noteq> []
          \<and> hd (chartData res)
              = \<lparr>year = 0, balanceStandard = max 0 (js_round B),
                 balanceAccelerated = max 0 (js_round B)\<rparr>"
      unfolding cd data_sim_after
      by (simp add: chart_point_def sim_after_0 initial_sim_def del: upt_Suc)
  qed
  from one two three show ?thesis by blast
qed

theorem chart_points_recorded_witness:
  "mortgageData 1000 12 2000 0
   = Some \<lparr>interestSaved = 0, timeSavedMonths = 0, totalInterestStandard = 10,
           payoffYearsStandard = 0.1, payoffYearsAccelerated = 0.1,
           chartData = [\<lparr>year = 0, balanceStandard = 1000, balanceAccelerated = 1000\<rparr>]\<rparr>
   \<and> (0::real) < 1000
   \<and> hd [\<lparr>year = 0, balanceStandard = 1000, balanceAccelerated = 1000\<rparr>]
      = \<lparr>year = 0, balanceStandard = max 0 (js_round 1000),
         balanceAccelerated = max 0 (js_round 1000)\<rparr>"
proof -
  have r: "(12::real) / 100 / 12 = 1 / 100" by simp
  have feas: "(0::real) < 12 / 100 / 12" "(1000::real) * (12 / 100 / 12) < 2000" by simp_all
  have h: "mortgageData 1000 12 2000 0
   = Some \<lparr>interestSaved = 0, timeSavedMonths = 0, totalInterestStandard = 10,
           payoffYearsStandard = 0.1, payoffYearsAccelerated = 0.1,
           chartData = [\<lparr>year = 0, balanceStandard = 1000, balanceAccelerated = 1000\<rparr>]\<rparr>"
    unfolding mortgageData_Some [OF feas] r one_month_payoff Let_def
    by (simp add: js_round_def toFixed1_def)
  from chart_points_recorded [OF h] show ?thesis using h by simp
qed

text \<open>
  C8, as it is stated, fails. A balance of 1000 at 12 percent with a payment of 2000 is
  paid in the first month by both schedules. The boundary at or after the payoff is month
  12, and the series has the point of year 0 only.
\<close>

theorem no_point_after_payoff:
  "mortgageData 1000 12 2000 0
   = Some \<lparr>interestSaved = 0, timeSavedMonths = 0, totalInterestStandard = 10,
           payoffYearsStandard = 0.1, payoffYearsAccelerated = 0.1,
           chartData = [\<lparr>year = 0, balanceStandard = 1000, balanceAccelerated = 1000\<rparr>]\<rparr>
   \<and> months1 (sim_after 1000 (12 / 100 / 12) 2000 0 (maxMonths + 1)) = 1
   \<and> months2 (sim_after 1000 (12 / 100 / 12) 2000 0 (maxMonths + 1)) = 1
   \<and> 1 \<notin> set (map year [\<lparr>year = 0, balanceStandard = 1000, balanceAccelerated = 1000\<rparr>])"
proof -
  have r: "(12::real) / 100 / 12 = 1 / 100" by simp
  have feas: "(0::real) < 12 / 100 / 12" "(1000::real) * (12 / 100 / 12) < 2000" by simp_all
  show ?thesis
    unfolding mortgageData_Some [OF feas] r one_month_payoff Let_def
    by (simp add: js_round_def toFixed1_def)
qed

section \<open>Mortgage payoff: the benefit of 500 extra a month\<close>

lemma open_balance_closed:
  assumes "r \<noteq> 0"
  shows "open_balance r M B n = M / r - (M / r - B) * (1 + r) ^ n"
proof (induction n)
  case 0
  show ?case by simp
next
  case (Suc n)
  define K where "K = M / r"
  have k: "K * (1 + r) = K + M" using assms by (simp add: K_def field_simps)
  have "open_balance r M B (Suc n) = (K - (K - B) * (1 + r) ^ n) * (1 + r) - M"
    using Suc by (simp add: K_def)
  also have "\<dots> = K * (1 + r) - (K - B) * ((1 + r) ^ n * (1 + r)) - M"
    by (simp add: algebra_simps)
  also have "\<dots> = K - (K - B) * (1 + r) ^ Suc n"
    unfolding k by simp
  finally show ?case by (simp add: K_def)
qed

lemma open_balance_prev:
  assumes "0 < r" and "0 < M" and "0 < open_balance r M B (Suc n)"
  shows "0 < open_balance r M B n"
proof (rule ccontr)
  assume "\<not> 0 < open_balance r M B n"
  then have "open_balance r M B n \<le> 0" by simp
  then have "open_balance r M B n * (1 + r) \<le> 0"
    using assms(1) by (simp add: mult_nonpos_nonneg)
  then show False using assms(2,3) by simp
qed

lemma standard_open:
  assumes "0 < r" and "0 < M" and "0 < open_balance r M B n"
  shows "b1 (sim_after B r M E n) = open_balance r M B n
     \<and> months1 (sim_after B r M E n) = n
     \<and> totalInterest1 (sim_after B r M E n) = real n * M + open_balance r M B n - B"
  using assms(3)
proof (induction n)
  case 0
  show ?case by (simp add: sim_after_0 initial_sim_def)
next
  case (Suc n)
  let ?c = "open_balance r M B n"
  have c: "0 < ?c" by (rule open_balance_prev [OF assms(1,2) Suc.prems])
  note ih = Suc.IH [OF c]
  have "M - ?c * r < ?c" using Suc.prems by (simp add: algebra_simps)
  then have m: "min ?c (M - ?c * r) = M - ?c * r" by simp
  show ?case
    unfolding sim_after_Suc loop_body_fields using ih c m by (simp add: algebra_simps)
qed

lemma standard_close:
  assumes "0 < r" and "0 < M" and "0 < open_balance r M B n"
    and "open_balance r M B (Suc n) \<le> 0"
  shows "b1 (sim_after B r M E (Suc n)) = 0
     \<and> months1 (sim_after B r M E (Suc n)) = Suc n
     \<and> totalInterest1 (sim_after B r M E (Suc n))
         = real n * M + open_balance r M B n * (1 + r) - B"
proof -
  let ?c = "open_balance r M B n"
  note o = standard_open [OF assms(1,2,3), of E]
  have "?c \<le> M - ?c * r" using assms(4) by (simp add: algebra_simps)
  then have m: "min ?c (M - ?c * r) = ?c" by simp
  show ?thesis
    unfolding sim_after_Suc loop_body_fields using o assms(3) m by (simp add: algebra_simps)
qed

lemma standard_paid:
  assumes "b1 (sim_after B r M E n) \<le> 0"
  shows "b1 (sim_after B r M E (n + k)) = b1 (sim_after B r M E n)
     \<and> months1 (sim_after B r M E (n + k)) = months1 (sim_after B r M E n)
     \<and> totalInterest1 (sim_after B r M E (n + k)) = totalInterest1 (sim_after B r M E n)"
proof (induction k)
  case 0
  show ?case by simp
next
  case (Suc k)
  then show ?case using assms by (simp add: sim_after_Suc loop_body_fields)
qed

lemma accelerated_open:
  assumes "0 < r" and "0 < M + E" and "0 < open_balance r (M + E) B n"
  shows "b2 (sim_after B r M E n) = open_balance r (M + E) B n
     \<and> months2 (sim_after B r M E n) = n
     \<and> totalInterest2 (sim_after B r M E n) = real n * (M + E) + open_balance r (M + E) B n - B"
  using assms(3)
proof (induction n)
  case 0
  show ?case by (simp add: sim_after_0 initial_sim_def)
next
  case (Suc n)
  let ?c = "open_balance r (M + E) B n"
  have c: "0 < ?c" by (rule open_balance_prev [OF assms(1,2) Suc.prems])
  note ih = Suc.IH [OF c]
  have "M + E - ?c * r < ?c" using Suc.prems by (simp add: algebra_simps)
  then have m: "min ?c (M + E - ?c * r) = M + E - ?c * r" by simp
  show ?case
    unfolding sim_after_Suc loop_body_fields using ih c m by (simp add: algebra_simps)
qed

lemma accelerated_close:
  assumes "0 < r" and "0 < M + E" and "0 < open_balance r (M + E) B n"
    and "open_balance r (M + E) B (Suc n) \<le> 0"
  shows "b2 (sim_after B r M E (Suc n)) = 0
     \<and> months2 (sim_after B r M E (Suc n)) = Suc n
     \<and> totalInterest2 (sim_after B r M E (Suc n))
         = real n * (M + E) + open_balance r (M + E) B n * (1 + r) - B"
proof -
  let ?c = "open_balance r (M + E) B n"
  note o = accelerated_open [OF assms(1,2,3)]
  have "?c \<le> M + E - ?c * r" using assms(4) by (simp add: algebra_simps)
  then have m: "min ?c (M + E - ?c * r) = ?c" by simp
  show ?thesis
    unfolding sim_after_Suc loop_body_fields using o assms(3) m by (simp add: algebra_simps)
qed

lemma accelerated_paid:
  assumes "b2 (sim_after B r M E n) \<le> 0"
  shows "b2 (sim_after B r M E (n + k)) = b2 (sim_after B r M E n)
     \<and> months2 (sim_after B r M E (n + k)) = months2 (sim_after B r M E n)
     \<and> totalInterest2 (sim_after B r M E (n + k)) = totalInterest2 (sim_after B r M E n)"
proof (induction k)
  case 0
  show ?case by simp
next
  case (Suc k)
  then show ?case using assms by (simp add: sim_after_Suc loop_body_fields)
qed

lemma mult_bounds:
  fixes x y :: real
  assumes "lx \<le> x" and "x \<le> ux" and "ly \<le> y" and "y \<le> uy"
    and "0 \<le> lx" and "0 \<le> ly" and "l \<le> lx * ly" and "ux * uy \<le> u"
  shows "l \<le> x * y \<and> x * y \<le> u"
proof
  have "lx * ly \<le> x * y" using assms(1,3,5,6) by (intro mult_mono) simp_all
  then show "l \<le> x * y" using assms(7) by simp
  have "0 \<le> x" "0 \<le> y" using assms(1,3,5,6) by simp_all
  then have "x * y \<le> ux * uy" using assms(2,4) by (intro mult_mono) simp_all
  then show "x * y \<le> u" using assms(8) by simp
qed

lemma growth_factor_powers:
  fixes q :: real
  assumes "q = 2413 / 2400"
  shows "2.176885308566152142652858376733 \<le> q ^ 144 \<and> q ^ 144 \<le> 2.176885308566152142652858376761"
    and "2.851934574481328996001170381475 \<le> q ^ 194 \<and> q ^ 194 \<le> 2.851934574481328996001170381529"
proof -
  have p2: "1.010862673611111111111111111111 \<le> q ^ 2 \<and> q ^ 2 \<le> 1.010862673611111111111111111112"
    unfolding assms by (simp add: power_divide)
  have p16: "1.090278086164644535906043125663 \<le> q ^ 16 \<and> q ^ 16 \<le> 1.090278086164644535906043125664"
    unfolding assms by (simp add: power_divide)
  have p32: "1.188706305170840054983105772966 \<le> q ^ 32 \<and> q ^ 32 \<le> 1.188706305170840054983105772969"
  proof -
    have e: "q ^ 32 = q ^ 16 * q ^ 16" by (simp add: power_add [symmetric])
    show ?thesis unfolding e
      using p16 by (intro mult_bounds [of "1.090278086164644535906043125663" _ "1.090278086164644535906043125664" "1.090278086164644535906043125663" _ "1.090278086164644535906043125664"]) simp_all
  qed
  have p64: "1.413022679952910326039115325999 \<le> q ^ 64 \<and> q ^ 64 \<le> 1.413022679952910326039115326007"
  proof -
    have e: "q ^ 64 = q ^ 32 * q ^ 32" by (simp add: power_add [symmetric])
    show ?thesis unfolding e
      using p32 by (intro mult_bounds [of "1.188706305170840054983105772966" _ "1.188706305170840054983105772969" "1.188706305170840054983105772966" _ "1.188706305170840054983105772969"]) simp_all
  qed
  have p128: "1.996633094061304845401146482938 \<le> q ^ 128 \<and> q ^ 128 \<le> 1.996633094061304845401146482961"
  proof -
    have e: "q ^ 128 = q ^ 64 * q ^ 64" by (simp add: power_add [symmetric])
    show ?thesis unfolding e
      using p64 by (intro mult_bounds [of "1.413022679952910326039115325999" _ "1.413022679952910326039115326007" "1.413022679952910326039115325999" _ "1.413022679952910326039115326007"]) simp_all
  qed
  show "2.176885308566152142652858376733 \<le> q ^ 144 \<and> q ^ 144 \<le> 2.176885308566152142652858376761"
  proof -
    have e: "q ^ 144 = q ^ 128 * q ^ 16" by (simp add: power_add [symmetric])
    show ?thesis unfolding e
      using p128 p16 by (intro mult_bounds [of "1.996633094061304845401146482938" _ "1.996633094061304845401146482961" "1.090278086164644535906043125663" _ "1.090278086164644535906043125664"]) simp_all
  qed
  have p192: "2.821287845453176255526854451583 \<le> q ^ 192 \<and> q ^ 192 \<le> 2.821287845453176255526854451633"
  proof -
    have e: "q ^ 192 = q ^ 128 * q ^ 64" by (simp add: power_add [symmetric])
    show ?thesis unfolding e
      using p128 p64 by (intro mult_bounds [of "1.996633094061304845401146482938" _ "1.996633094061304845401146482961" "1.413022679952910326039115325999" _ "1.413022679952910326039115326007"]) simp_all
  qed
  show "2.851934574481328996001170381475 \<le> q ^ 194 \<and> q ^ 194 \<le> 2.851934574481328996001170381529"
  proof -
    have e: "q ^ 194 = q ^ 192 * q ^ 2" by (simp add: power_add [symmetric])
    show ?thesis unfolding e
      using p192 p2 by (intro mult_bounds [of "2.821287845453176255526854451583" _ "2.821287845453176255526854451633" "1.010862673611111111111111111111" _ "1.010862673611111111111111111112"]) simp_all
  qed
qed

lemma standard_balance_194:
  "841.3379 \<le> open_balance (13 / 2400) 2500 300000 194
   \<and> open_balance (13 / 2400) 2500 300000 194 \<le> 841.3380"
proof -
  define q :: real where "q = 2413 / 2400"
  have rq: "1 + 13 / 2400 = q" by (simp add: q_def)
  have c: "open_balance (13 / 2400) 2500 300000 194
      = 2500 / (13 / 2400) - (2500 / (13 / 2400) - 300000) * q ^ 194"
    using open_balance_closed [of "13 / 2400" 2500 300000 194] unfolding rq by simp
  from growth_factor_powers(2) [OF q_def]
  have "2.851934574481328996001170381475 \<le> q ^ 194" and "q ^ 194 \<le> 2.851934574481328996001170381529"
    by simp_all
  then show ?thesis unfolding c by simp
qed

lemma accelerated_balance_144:
  "1252.1909 \<le> open_balance (13 / 2400) (2500 + 500) 300000 144
   \<and> open_balance (13 / 2400) (2500 + 500) 300000 144 \<le> 1252.1910"
proof -
  define q :: real where "q = 2413 / 2400"
  have rq: "1 + 13 / 2400 = q" by (simp add: q_def)
  have c: "open_balance (13 / 2400) (2500 + 500) 300000 144
      = (2500 + 500) / (13 / 2400) - ((2500 + 500) / (13 / 2400) - 300000) * q ^ 144"
    using open_balance_closed [of "13 / 2400" "2500 + 500" 300000 144] unfolding rq by simp
  from growth_factor_powers(1) [OF q_def]
  have "2.176885308566152142652858376733 \<le> q ^ 144" and "q ^ 144 \<le> 2.176885308566152142652858376761"
    by simp_all
  then show ?thesis unfolding c by simp
qed

lemma standard_final:
  fixes s :: Sim
  assumes "s = sim_after 300000 (13 / 2400) 2500 500 (maxMonths + 1)"
  shows "b1 s = 0 \<and> months1 s = 195
     \<and> totalInterest1 s
         = 185000 + open_balance (13 / 2400) 2500 300000 194 * (2413 / 2400)"
proof -
  let ?c = "open_balance (13 / 2400) 2500 300000 194"
  have pos: "0 < ?c" using standard_balance_194 by simp
  have "open_balance (13 / 2400) 2500 300000 (Suc 194) = ?c * (1 + 13 / 2400) - 2500"
    by (rule open_balance.simps(2))
  then have neg: "open_balance (13 / 2400) 2500 300000 (Suc 194) \<le> 0"
    using standard_balance_194 by simp
  have r: "(0::real) < 13 / 2400" and m: "(0::real) < 2500" by simp_all
  note c = standard_close [OF r m pos neg, of 500]
  have n: "maxMonths + 1 = Suc 194 + 526" by (simp add: maxMonths_def)
  have z: "b1 (sim_after 300000 (13 / 2400) 2500 500 (Suc 194)) \<le> 0" using c by simp
  note p = standard_paid [OF z, of 526]
  show ?thesis unfolding assms n using p c by simp
qed

lemma accelerated_final:
  fixes s :: Sim
  assumes "s = sim_after 300000 (13 / 2400) 2500 500 (maxMonths + 1)"
  shows "b2 s = 0 \<and> months2 s = 145
     \<and> totalInterest2 s
         = 132000 + open_balance (13 / 2400) (2500 + 500) 300000 144 * (2413 / 2400)"
proof -
  let ?c = "open_balance (13 / 2400) (2500 + 500) 300000 144"
  have pos: "0 < ?c" using accelerated_balance_144 by simp
  have "open_balance (13 / 2400) (2500 + 500) 300000 (Suc 144)
      = ?c * (1 + 13 / 2400) - (2500 + 500)"
    by (rule open_balance.simps(2))
  then have neg: "open_balance (13 / 2400) (2500 + 500) 300000 (Suc 144) \<le> 0"
    using accelerated_balance_144 by simp
  have r: "(0::real) < 13 / 2400" and m: "(0::real) < 2500 + 500" by simp_all
  note c = accelerated_close [OF r m pos neg]
  have n: "maxMonths + 1 = Suc 144 + 576" by (simp add: maxMonths_def)
  have z: "b2 (sim_after 300000 (13 / 2400) 2500 500 (Suc 144)) \<le> 0" using c by simp
  note p = accelerated_paid [OF z, of 576]
  show ?thesis unfolding assms n using p c by simp
qed

lemma js_round_eq:
  assumes "of_int z - 1 / 2 \<le> x" and "x < of_int z + 1 / 2"
  shows "js_round x = of_int z"
proof -
  have "\<lfloor>x + 1 / 2\<rfloor> = z" using assms by (intro floor_unique) simp_all
  then show ?thesis by (simp add: js_round_def)
qed

text \<open>
  C6. For a balance of 300000 at 6.5 percent, a payment of 2500 and 500 extra a month, both
  loans are paid off within the simulation, the standard one in 195 months and the
  accelerated one in 145. The result has \<open>timeSavedMonths = 50\<close>, \<open>interestSaved = 52587\<close>,
  a standard interest of 185846, and payoff times of 16.3 and 12.1 years; so
  \<open>timeSavedMonths > 0\<close>, \<open>interestSaved > 0\<close> and the accelerated payoff time is below the
  standard one.
\<close>

theorem acceleration_benefit:
  "\<exists>res. mortgageData 300000 6.5 2500 500 = Some res
     \<and> b1 (sim_after 300000 (6.5 / 100 / 12) 2500 500 (maxMonths + 1)) = 0
     \<and> b2 (sim_after 300000 (6.5 / 100 / 12) 2500 500 (maxMonths + 1)) = 0
     \<and> months1 (sim_after 300000 (6.5 / 100 / 12) 2500 500 (maxMonths + 1)) = 195
     \<and> months2 (sim_after 300000 (6.5 / 100 / 12) 2500 500 (maxMonths + 1)) = 145
     \<and> timeSavedMonths res = 50
     \<and> interestSaved res = 52587
     \<and> totalInterestStandard res = 185846
     \<and> payoffYearsStandard res = 16.3
     \<and> payoffYearsAccelerated res = 12.1
     \<and> 0 < timeSavedMonths res \<and> 0 < interestSaved res
     \<and> payoffYearsAccelerated res < payoffYearsStandard res"
proof -
  let ?s = "sim_after 300000 (13 / 2400) 2500 500 (maxMonths + 1)"
  let ?c1 = "open_balance (13 / 2400) 2500 300000 194"
  let ?c2 = "open_balance (13 / 2400) (2500 + 500) 300000 144"
  have r: "(6.5::real) / 100 / 12 = 13 / 2400" by simp
  have feas: "(0::real) < 6.5 / 100 / 12" "(300000::real) * (6.5 / 100 / 12) < 2500"
    by simp_all
  note f1 = standard_final [OF refl]
  note f2 = accelerated_final [OF refl]
  have i1: "totalInterest1 ?s = 185000 + ?c1 * (2413 / 2400)" using f1 by simp
  have i2: "totalInterest2 ?s = 132000 + ?c2 * (2413 / 2400)" using f2 by simp
  have tis: "js_round (totalInterest1 ?s) = of_int 185846"
    unfolding i1 using standard_balance_194 by (intro js_round_eq) simp_all
  have sav: "js_round (totalInterest1 ?s - totalInterest2 ?s) = of_int 52587"
    unfolding i1 i2 using standard_balance_194 accelerated_balance_144
    by (intro js_round_eq) simp_all
  have y1: "toFixed1 (real (195::nat) / 12) = 16.3" by (simp add: toFixed1_def)
  have y2: "toFixed1 (real (145::nat) / 12) = 12.1" by (simp add: toFixed1_def)
  show ?thesis
    unfolding mortgageData_Some [OF feas] r Let_def using f1 f2 tis sav y1 y2 by simp
qed

end
